theory Spec2Isabelle
  imports Complex_Main
begin

section \<open>JavaScript values\<close>

text \<open>
  The program is \<^verbatim>\<open>www/app.js\<close>. Its vectors hold JavaScript numbers, which are
  IEEE 754 binary64 values. A number is modelled as a real when it is finite, and as
  one of the special values otherwise; \<open>Undefined\<close> is what reading an array hole or
  an index past the end gives. The sign of zero is not modelled (every zero divisor
  the program can form is a product of square roots, hence \<open>+0\<close>).

  The operations \<open>js_add\<close>, \<open>js_mul\<close>, \<open>js_div\<close> and \<open>js_sqrt\<close> below give the exact
  result on finite operands and follow IEEE 754 on the special values. The
  operations of the language round that result to the nearest binary64 value: these
  are \<open>dbl_add\<close>, \<open>dbl_mul\<close>, \<open>dbl_div\<close> and \<open>dbl_sqrt\<close> further down, and
  \<^verbatim>\<open>cosineSimilarity\<close> is built on them, since which of two close scores is the
  greater is decided by the rounding. The sums of the smoothing average and the
  difference in the comparison of the notes are kept exact.
\<close>

datatype jsval = Num real | PInf | NInf | NaN | Undefined

text \<open>\<^verbatim>\<open>x + y\<close> on numbers (\<open>undefined\<close> converts to NaN).\<close>

fun js_add :: "jsval \<Rightarrow> jsval \<Rightarrow> jsval" where
  "js_add (Num a) (Num b) = Num (a + b)"
| "js_add (Num a) PInf = PInf"
| "js_add (Num a) NInf = NInf"
| "js_add PInf (Num b) = PInf"
| "js_add PInf PInf = PInf"
| "js_add NInf (Num b) = NInf"
| "js_add NInf NInf = NInf"
| "js_add _ _ = NaN"

fun js_neg :: "jsval \<Rightarrow> jsval" where
  "js_neg (Num a) = Num (- a)"
| "js_neg PInf = NInf"
| "js_neg NInf = PInf"
| "js_neg _ = NaN"

text \<open>\<^verbatim>\<open>x - y\<close>.\<close>

definition js_sub :: "jsval \<Rightarrow> jsval \<Rightarrow> jsval" where
  "js_sub x y = js_add x (js_neg y)"

text \<open>The infinity of the given sign.\<close>

definition signed_inf :: "bool \<Rightarrow> jsval" where
  "signed_inf positive = (if positive then PInf else NInf)"

text \<open>\<^verbatim>\<open>x * y\<close>: zero times an infinity is NaN.\<close>

fun js_mul :: "jsval \<Rightarrow> jsval \<Rightarrow> jsval" where
  "js_mul (Num a) (Num b) = Num (a * b)"
| "js_mul (Num a) PInf = (if a = 0 then NaN else signed_inf (0 < a))"
| "js_mul (Num a) NInf = (if a = 0 then NaN else signed_inf (a < 0))"
| "js_mul PInf (Num b) = (if b = 0 then NaN else signed_inf (0 < b))"
| "js_mul NInf (Num b) = (if b = 0 then NaN else signed_inf (b < 0))"
| "js_mul PInf PInf = PInf"
| "js_mul PInf NInf = NInf"
| "js_mul NInf PInf = NInf"
| "js_mul NInf NInf = PInf"
| "js_mul _ _ = NaN"

text \<open>
  \<^verbatim>\<open>x / y\<close>: \<open>0 / 0\<close> and \<open>\<infinity> / \<infinity>\<close> are NaN, a non-zero number over zero is an
  infinity.
\<close>

fun js_div :: "jsval \<Rightarrow> jsval \<Rightarrow> jsval" where
  "js_div (Num a) (Num b) =
     (if b = 0 then (if a = 0 then NaN else signed_inf (0 < a)) else Num (a / b))"
| "js_div (Num a) PInf = Num 0"
| "js_div (Num a) NInf = Num 0"
| "js_div PInf (Num b) = signed_inf (0 \<le> b)"
| "js_div NInf (Num b) = signed_inf (b < 0)"
| "js_div _ _ = NaN"

text \<open>\<^verbatim>\<open>Math.sqrt(x)\<close>.\<close>

fun js_sqrt :: "jsval \<Rightarrow> jsval" where
  "js_sqrt (Num a) = (if a < 0 then NaN else Num (sqrt a))"
| "js_sqrt PInf = PInf"
| "js_sqrt _ = NaN"

text \<open>
  Rounding to binary64, to nearest with ties to even. \<open>round_even\<close> rounds a real to
  an integer. \<open>binade x\<close> is the exponent \<open>e\<close> with \<open>2^e \<le> |x| < 2^(e+1)\<close>. A number of
  that binade is rounded to a multiple of \<open>2^(e-52)\<close>; below \<open>2^(-1022)\<close> the spacing
  stays \<open>2^(-1074)\<close> (subnormal numbers), and a result of magnitude \<open>2^1024\<close> or more
  is an infinity.
\<close>

definition round_even :: "real \<Rightarrow> int" where
  "round_even r =
     (let f = \<lfloor>r\<rfloor> in
      if r - of_int f < 1 / 2 then f
      else if 1 / 2 < r - of_int f then f + 1
      else if even f then f else f + 1)"

definition binade :: "real \<Rightarrow> int" where
  "binade x = \<lfloor>log 2 \<bar>x\<bar>\<rfloor>"

definition fl :: "real \<Rightarrow> jsval" where
  "fl x =
     (if x = 0 then Num 0
      else let e = max (binade x) (- 1022);
               q = 2 powi (e - 52);
               y = of_int (round_even (x / q)) * q
           in if 2 ^ 1024 \<le> \<bar>y\<bar> then signed_inf (0 < x) else Num y)"

fun rounded :: "jsval \<Rightarrow> jsval" where
  "rounded (Num r) = fl r"
| "rounded v = v"

text \<open>
  \<^verbatim>\<open>x + y\<close>, \<^verbatim>\<open>x * y\<close>, \<^verbatim>\<open>x / y\<close> and \<^verbatim>\<open>Math.sqrt(x)\<close> on binary64 values: the exact
  result, rounded. (\<^verbatim>\<open>Math.sqrt\<close> is taken as the correctly rounded square root of
  IEEE 754.)
\<close>

definition dbl_add :: "jsval \<Rightarrow> jsval \<Rightarrow> jsval" where
  "dbl_add x y = rounded (js_add x y)"

definition dbl_mul :: "jsval \<Rightarrow> jsval \<Rightarrow> jsval" where
  "dbl_mul x y = rounded (js_mul x y)"

definition dbl_div :: "jsval \<Rightarrow> jsval \<Rightarrow> jsval" where
  "dbl_div x y = rounded (js_div x y)"

definition dbl_sqrt :: "jsval \<Rightarrow> jsval" where
  "dbl_sqrt x = rounded (js_sqrt x)"

text \<open>\<^verbatim>\<open>x < y\<close>: false as soon as one side is NaN or \<open>undefined\<close>.\<close>

fun js_lt :: "jsval \<Rightarrow> jsval \<Rightarrow> bool" where
  "js_lt (Num a) (Num b) = (a < b)"
| "js_lt (Num a) PInf = True"
| "js_lt NInf (Num b) = True"
| "js_lt NInf PInf = True"
| "js_lt _ _ = False"

text \<open>\<^verbatim>\<open>x > y\<close>.\<close>

definition js_gt :: "jsval \<Rightarrow> jsval \<Rightarrow> bool" where
  "js_gt x y = js_lt y x"

text \<open>\<^verbatim>\<open>x >= y\<close>.\<close>

fun js_ge :: "jsval \<Rightarrow> jsval \<Rightarrow> bool" where
  "js_ge (Num a) (Num b) = (b \<le> a)"
| "js_ge PInf (Num b) = True"
| "js_ge (Num a) NInf = True"
| "js_ge PInf NInf = True"
| "js_ge PInf PInf = True"
| "js_ge NInf NInf = True"
| "js_ge _ _ = False"

text \<open>\<^verbatim>\<open>xs[i]\<close> for a natural index: \<open>undefined\<close> past the end.\<close>

definition js_index :: "jsval list \<Rightarrow> nat \<Rightarrow> jsval" where
  "js_index xs i = (if i < length xs then xs ! i else Undefined)"

text \<open>
  \<^verbatim>\<open>a % b\<close> on integers with \<open>b > 0\<close>: the remainder takes the sign of the dividend.
\<close>

definition js_rem :: "int \<Rightarrow> int \<Rightarrow> int" where
  "js_rem a b = (if a < 0 then - ((- a) mod b) else a mod b)"

text \<open>
  \<^verbatim>\<open>xs[k] = v\<close> on an array: an index inside the array replaces the element, an
  index past the end extends the array over holes, and a negative \<open>k\<close> names an
  ordinary property, which leaves the elements as they are.
\<close>

definition array_set :: "jsval list \<Rightarrow> int \<Rightarrow> jsval \<Rightarrow> jsval list" where
  "array_set xs k v =
     (if k < 0 then xs
      else if nat k < length xs then xs[nat k := v]
      else xs @ replicate (nat k - length xs) Undefined @ [v])"

section \<open>Objects and the order of their keys\<close>

text \<open>
  An object is the list of its properties in the order they were created. Its keys
  are enumerated (\<^verbatim>\<open>Object.entries\<close>, \<^verbatim>\<open>for ... in\<close>) with the array
  indices first, in ascending numeric order, and then the other strings in creation
  order. An array index is the canonical decimal form of an integer below \<open>2^32 - 1\<close>.
\<close>

type_synonym 'a object = "(string \<times> 'a) list"

definition digit_of :: "char \<Rightarrow> nat option" where
  "digit_of c = map_of
     [(CHR ''0'', 0), (CHR ''1'', 1), (CHR ''2'', 2), (CHR ''3'', 3), (CHR ''4'', 4),
      (CHR ''5'', 5), (CHR ''6'', 6), (CHR ''7'', 7), (CHR ''8'', 8), (CHR ''9'', 9)] c"

definition index_value :: "string \<Rightarrow> nat" where
  "index_value s = foldl (\<lambda>n c. 10 * n + (case digit_of c of Some d \<Rightarrow> d | None \<Rightarrow> 0)) 0 s"

definition is_array_index :: "string \<Rightarrow> bool" where
  "is_array_index s =
     (s \<noteq> [] \<and> list_all (\<lambda>c. digit_of c \<noteq> None) s
      \<and> (s = ''0'' \<or> hd s \<noteq> CHR ''0'') \<and> index_value s < 2 ^ 32 - 1)"

definition own_keys_order :: "'a object \<Rightarrow> 'a object" where
  "own_keys_order props =
     sort_key (\<lambda>p. index_value (fst p)) (filter (\<lambda>p. is_array_index (fst p)) props)
     @ filter (\<lambda>p. \<not> is_array_index (fst p)) props"

text \<open>\<^verbatim>\<open>obj[key] = v\<close>: an existing property keeps its place, a new one comes last.\<close>

fun obj_set :: "'a object \<Rightarrow> string \<Rightarrow> 'a \<Rightarrow> 'a object" where
  "obj_set [] key v = [(key, v)]"
| "obj_set (p # ps) key v = (if fst p = key then (key, v) # ps else p # obj_set ps key v)"

section \<open>Chroma post-processing and chord templates\<close>

text \<open>
  \<^verbatim>\<open>shiftHPCP(hpcp, shift)\<close>: a new array of \<open>len\<close> holes, then for each \<open>i\<close> the
  assignment \<^verbatim>\<open>shifted[(i + shift + len) % len] = hpcp[i]\<close>.
\<close>

definition shiftHPCP :: "jsval list \<Rightarrow> int \<Rightarrow> jsval list" where
  "shiftHPCP hpcp shift =
     (let len = length hpcp in
      fold (\<lambda>i shifted. array_set shifted (js_rem (int i + shift + int len) (int len)) (hpcp ! i))
        [0..<len] (replicate len Undefined))"

text \<open>\<^verbatim>\<open>generateChordTemplate(rootIndex, intervals)\<close>.\<close>

definition generateChordTemplate :: "int \<Rightarrow> int list \<Rightarrow> jsval list" where
  "generateChordTemplate rootIndex intervals =
     fold (\<lambda>interval template. array_set template (js_rem (rootIndex + interval) 12) (Num 1))
       intervals (replicate 12 (Num 0))"

definition noteNames :: "string list" where
  "noteNames = [''C'', ''C#'', ''D'', ''D#'', ''E'', ''F'', ''F#'', ''G'', ''G#'', ''A'', ''A#'', ''B'']"

text \<open>The object literal \<^verbatim>\<open>chordTypes\<close>, in the order it is written.\<close>

definition chordTypes :: "int list object" where
  "chordTypes =
     [(''maj'', [0, 4, 7]), (''min'', [0, 3, 7]), (''dim'', [0, 3, 6]),
      (''aug'', [0, 4, 8]), (''7'', [0, 4, 7, 10])]"

text \<open>
  \<^verbatim>\<open>generateChordTemplates()\<close>: for each root, for each entry of
  \<^verbatim>\<open>Object.entries(chordTypes)\<close>, the template is stored under the key
  \<^verbatim>\<open>`${noteNames[i]}:${type}`\<close>.
\<close>

definition generateChordTemplates :: "jsval list object" where
  "generateChordTemplates =
     fold (\<lambda>i templates.
        fold (\<lambda>(type, intervals) templates.
           obj_set templates (noteNames ! i @ '':'' @ type) (generateChordTemplate (int i) intervals))
          (own_keys_order chordTypes) templates)
       [0..<12] []"

definition chordTemplates :: "jsval list object" where
  "chordTemplates = generateChordTemplates"

section \<open>Similarity scoring, chord detection and note ranking\<close>

text \<open>
  \<^verbatim>\<open>cosineSimilarity(a, b)\<close>: one loop over the indices of \<open>a\<close> accumulating the dot
  product and both squared norms, then \<^verbatim>\<open>dot / (Math.sqrt(normA) * Math.sqrt(normB))\<close>.
\<close>

definition cosineSimilarity :: "jsval list \<Rightarrow> jsval list \<Rightarrow> jsval" where
  "cosineSimilarity a b =
     (case fold (\<lambda>i (dot, normA, normB).
                  (dbl_add dot (dbl_mul (a ! i) (js_index b i)),
                   dbl_add normA (dbl_mul (a ! i) (a ! i)),
                   dbl_add normB (dbl_mul (js_index b i) (js_index b i))))
            [0..<length a] (Num 0, Num 0, Num 0)
      of (dot, normA, normB) \<Rightarrow> dbl_div dot (dbl_mul (dbl_sqrt normA) (dbl_sqrt normB)))"

text \<open>
  One iteration of the loop of \<^verbatim>\<open>detectChord\<close>; the state is
  \<open>(bestChord, bestScore)\<close>, with \<open>None\<close> for \<^verbatim>\<open>null\<close>.
\<close>

definition detectChord_step ::
  "jsval list \<Rightarrow> string \<times> jsval list \<Rightarrow> string option \<times> jsval \<Rightarrow> string option \<times> jsval" where
  "detectChord_step hpcpVector entry best =
     (let score = cosineSimilarity hpcpVector (snd entry) in
      if js_gt score (snd best) then (Some (fst entry), score) else best)"

text \<open>
  \<^verbatim>\<open>detectChord(hpcpVector, chordTemplates)\<close>: the \<^verbatim>\<open>for ... in\<close> loop visits the
  keys in the enumeration order of the object, starting from \<open>(null, -Infinity)\<close>.
  An object holds each key once, so visiting its entries is visiting each key
  \<open>chord\<close> with \<^verbatim>\<open>chordTemplates[chord]\<close>.
\<close>

definition detectChord_loop :: "jsval list \<Rightarrow> jsval list object \<Rightarrow> string option \<times> jsval" where
  "detectChord_loop hpcpVector templates =
     fold (detectChord_step hpcpVector) (own_keys_order templates) (None, NInf)"

definition detectChord :: "jsval list \<Rightarrow> jsval list object \<Rightarrow> string option" where
  "detectChord hpcpVector templates = fst (detectChord_loop hpcpVector templates)"

text \<open>
  An entry \<^verbatim>\<open>{ note, value }\<close> of \<^verbatim>\<open>detectNotes\<close> is a pair; the note is \<open>None\<close>
  when \<^verbatim>\<open>noteNames[i]\<close> is \<open>undefined\<close>.
\<close>

type_synonym note_entry = "string option \<times> jsval"

text \<open>
  \<^verbatim>\<open>Array.prototype.sort(compare)\<close> is a library function of the language. It is
  stable: an element moves behind another only when \<open>compare\<close> puts it strictly
  after (a positive result; NaN counts as zero). \<open>after x y\<close> says that
  \<open>compare(x, y) > 0\<close>. The model is the stable insertion sort; every stable sort
  returns the same list when \<open>compare\<close> is a consistent ordering, as the comparison
  of \<^verbatim>\<open>detectNotes\<close> is on the values that pass its filter.
\<close>

fun js_insert :: "('a \<Rightarrow> 'a \<Rightarrow> bool) \<Rightarrow> 'a \<Rightarrow> 'a list \<Rightarrow> 'a list" where
  "js_insert after x [] = [x]"
| "js_insert after x (y # ys) = (if after x y then y # js_insert after x ys else x # y # ys)"

fun js_sort :: "('a \<Rightarrow> 'a \<Rightarrow> bool) \<Rightarrow> 'a list \<Rightarrow> 'a list" where
  "js_sort after [] = []"
| "js_sort after (x # xs) = js_insert after x (js_sort after xs)"

text \<open>The comparison \<^verbatim>\<open>(a, b) => b.value - a.value\<close> of \<^verbatim>\<open>detectNotes\<close>.\<close>

definition notes_after :: "note_entry \<Rightarrow> note_entry \<Rightarrow> bool" where
  "notes_after a b = js_gt (js_sub (snd b) (snd a)) (Num 0)"

text \<open>\<^verbatim>\<open>detectNotes(hpcpVector, threshold)\<close>.\<close>

definition detectNotes :: "jsval list \<Rightarrow> jsval \<Rightarrow> note_entry list" where
  "detectNotes hpcpVector threshold =
     (let notes = map (\<lambda>i. (if i < length noteNames then Some (noteNames ! i) else None,
                              hpcpVector ! i)) [0..<length hpcpVector]
      in js_sort notes_after (filter (\<lambda>n. js_ge (snd n) threshold) notes))"

section \<open>The pipeline state and the chunk handler\<close>

text \<open>
  The feature extractor is the Essentia object; it is outside the program. Its two
  calls are parameters of the model: each takes the frame and either returns or
  throws (\<open>None\<close>). \<^verbatim>\<open>RMS\<close> stands for the \<open>rms\<close> field of the result of
  \<^verbatim>\<open>essentiaExtractor.RMS(essentiaExtractor.arrayToVector(buffer))\<close>.
\<close>

record 's extractor =
  RMS :: "'s list \<Rightarrow> jsval option"
  hpcpExtractor :: "'s list \<Rightarrow> jsval list option"

text \<open>
  \<^verbatim>\<open>lastNotesResult\<close> starts as the string \<^verbatim>\<open>"None"\<close> and then holds the text
  rendered from the ranked notes; the model keeps the ranked notes themselves.
\<close>

datatype notes_result = NotesText string | NotesRanked "note_entry list"

text \<open>
  The module-level variables the handler and \<^verbatim>\<open>stopAudioWorkletStream\<close> read and
  write. \<open>lastChordResult\<close> is a string or \<^verbatim>\<open>null\<close> (\<open>None\<close>). The audio context,
  the stream, the worklet node and the gain node are handles of the browser and are
  left out, as is the text written to the page.
\<close>

record 's pipeline =
  essentiaExtractor :: "'s extractor option"
  isRecording :: bool
  hpcpAccumulation :: "jsval list list"
  lastSmoothingTime :: real
  lastChordResult :: "string option"
  lastNotesResult :: notes_result
  sampleAccumulator :: "'s list list"

definition BUFFER_SIZE :: nat where
  "BUFFER_SIZE = 8192"

definition SMOOTHING_INTERVAL :: real where
  "SMOOTHING_INTERVAL = 250"

text \<open>The values of the variables when the script has been loaded at time \<open>t0\<close>.\<close>

definition initial_pipeline :: "real \<Rightarrow> 's pipeline" where
  "initial_pipeline t0 =
     \<lparr> essentiaExtractor = None, isRecording = False, hpcpAccumulation = [],
       lastSmoothingTime = t0, lastChordResult = Some ''None'',
       lastNotesResult = NotesText ''None'', sampleAccumulator = [] \<rparr>"

text \<open>
  The average of the accumulated vectors:
  \<^verbatim>\<open>acc.reduce((acc, curr) => acc.map((val, i) => val + curr[i]), new Array(12).fill(0))\<close>
  \<^verbatim>\<open>.map(val => val / hpcpAccumulation.length)\<close>.
\<close>

definition averageHPCP :: "jsval list list \<Rightarrow> jsval list" where
  "averageHPCP accumulation =
     map (\<lambda>val. js_div val (Num (real (length accumulation))))
       (fold (\<lambda>curr acc. map (\<lambda>(val, i). js_add val (js_index curr i)) (zip acc [0..<length acc]))
          accumulation (replicate 12 (Num 0)))"

text \<open>
  What one call of the handler did, for stating properties: no frame yet; a frame
  was cut and the extractor threw (or was \<^verbatim>\<open>null\<close>); the frame was below the
  loudness floor; its chroma vector was accumulated; or the window was flushed with
  the given average.
\<close>

datatype 's outcome =
    NoFrame
  | Threw "'s list"
  | Rejected "'s list"
  | Accumulated "'s list"
  | Flushed "'s list" "jsval list"

fun frame_of :: "'s outcome \<Rightarrow> 's list option" where
  "frame_of NoFrame = None"
| "frame_of (Threw buffer) = Some buffer"
| "frame_of (Rejected buffer) = Some buffer"
| "frame_of (Accumulated buffer) = Some buffer"
| "frame_of (Flushed buffer avgHPCP) = Some buffer"

fun flushed_of :: "'s outcome \<Rightarrow> jsval list option" where
  "flushed_of (Flushed buffer avgHPCP) = Some avgHPCP"
| "flushed_of _ = None"

text \<open>
  The part of the handler after the loudness gate: rotate the chroma vector by
  \<open>-3\<close>, accumulate it, and flush when \<^verbatim>\<open>now - lastSmoothingTime >= SMOOTHING_INTERVAL\<close>.
  \<open>now\<close> is what \<^verbatim>\<open>performance.now()\<close> returns in this call.
\<close>

definition smooth :: "'s pipeline \<Rightarrow> 's list \<Rightarrow> jsval list \<Rightarrow> real \<Rightarrow> 's outcome \<times> 's pipeline" where
  "smooth st buffer hpcp0 now =
     (let hpcp = shiftHPCP hpcp0 (- 3);
          st = st\<lparr>hpcpAccumulation := hpcpAccumulation st @ [hpcp]\<rparr>
      in if now - lastSmoothingTime st \<ge> SMOOTHING_INTERVAL then
           (let avgHPCP = averageHPCP (hpcpAccumulation st);
                st = st\<lparr>hpcpAccumulation := [], lastSmoothingTime := now\<rparr>;
                detectedChord = detectChord avgHPCP chordTemplates;
                detectedNotes = detectNotes avgHPCP (Num (1 / 10))
            in (Flushed buffer avgHPCP,
                st\<lparr>lastChordResult := detectedChord, lastNotesResult := NotesRanked detectedNotes\<rparr>))
         else (Accumulated buffer, st))"

text \<open>
  The part of the handler that runs once a frame has been cut: the loudness gate
  \<^verbatim>\<open>if (rmsResult.rms < 0.05) return;\<close>, then the chroma extraction.
\<close>

definition analyse :: "'s pipeline \<Rightarrow> 's list \<Rightarrow> real \<Rightarrow> 's outcome \<times> 's pipeline" where
  "analyse st buffer now =
     (case essentiaExtractor st of
        None \<Rightarrow> (Threw buffer, st)
      | Some ex \<Rightarrow>
          (case RMS ex buffer of
             None \<Rightarrow> (Threw buffer, st)
           | Some rms \<Rightarrow>
               if js_lt rms (Num (5 / 100)) then (Rejected buffer, st)
               else (case hpcpExtractor ex buffer of
                       None \<Rightarrow> (Threw buffer, st)
                     | Some hpcp \<Rightarrow> smooth st buffer hpcp now)))"

text \<open>
  \<^verbatim>\<open>audioWorkletNode.port.onmessage\<close>, for the chunk \<^verbatim>\<open>event.data\<close>: push the chunk,
  and when at least \<open>BUFFER_SIZE\<close> samples are held, concatenate the chunks, keep the
  first \<open>BUFFER_SIZE\<close> samples, empty the accumulator and analyse the frame.
\<close>

definition onmessage :: "'s pipeline \<Rightarrow> 's list \<Rightarrow> real \<Rightarrow> 's outcome \<times> 's pipeline" where
  "onmessage st data now =
     (let st = st\<lparr>sampleAccumulator := sampleAccumulator st @ [data]\<rparr>;
          totalSamples = fold (\<lambda>arr sum. sum + length arr) (sampleAccumulator st) 0
      in if totalSamples \<ge> BUFFER_SIZE then
           (let buffer = concat (sampleAccumulator st);
                buffer = (if length buffer > BUFFER_SIZE then take BUFFER_SIZE buffer else buffer);
                st = st\<lparr>sampleAccumulator := []\<rparr>
            in analyse st buffer now)
         else (NoFrame, st))"

text \<open>The handler run over a sequence of chunks, each with its clock reading.\<close>

fun deliver :: "'s pipeline \<Rightarrow> ('s list \<times> real) list \<Rightarrow> 's outcome list \<times> 's pipeline" where
  "deliver st [] = ([], st)"
| "deliver st ((data, now) # rest) =
     (case onmessage st data now of
        (out, st') \<Rightarrow> (case deliver st' rest of (outs, st'') \<Rightarrow> (out # outs, st'')))"

text \<open>\<^verbatim>\<open>stopAudioWorkletStream()\<close>, on the variables of the model.\<close>

definition stopAudioWorkletStream :: "'s pipeline \<Rightarrow> 's pipeline" where
  "stopAudioWorkletStream st =
     st\<lparr>essentiaExtractor := None, isRecording := False,
        hpcpAccumulation := [], sampleAccumulator := []\<rparr>"

text \<open>A value that is zero or NaN: what the sums over an all-zero vector can be.\<close>

definition zero_or_nan :: "jsval \<Rightarrow> bool" where
  "zero_or_nan x = (x = Num 0 \<or> x = NaN)"

text \<open>
  The order of the ranking on indices: a larger value first, and among equal values
  the smaller index first.
\<close>

definition ranks_before :: "real list \<Rightarrow> nat \<Rightarrow> nat \<Rightarrow> bool" where
  "ranks_before rs i j = (rs ! j < rs ! i \<or> (rs ! j = rs ! i \<and> i < j))"

text \<open>
  The sum of the products of two vectors as the loop of \<^verbatim>\<open>cosineSimilarity\<close>
  accumulates it: from 0, left to right, each product and each sum rounded.
\<close>

definition dot_rounded :: "jsval list \<Rightarrow> jsval list \<Rightarrow> jsval" where
  "dot_rounded a b = fold (\<lambda>(x, y) s. dbl_add s (dbl_mul x y)) (zip a b) (Num 0)"

text \<open>
  The similarity as the specification defines it, on vectors of reals: the dot
  product over the product of the Euclidean norms, \<open>dot(a, b) / (\<parallel>a\<parallel> \<cdot> \<parallel>b\<parallel>)\<close>, with no
  rounding.
\<close>

definition cosine_spec :: "real list \<Rightarrow> real list \<Rightarrow> real" where
  "cosine_spec a b =
     (\<Sum>(x, y)\<leftarrow>zip a b. x * y) / (sqrt (\<Sum>x\<leftarrow>a. x * x) * sqrt (\<Sum>y\<leftarrow>b. y * y))"

section \<open>Evaluation of the template library\<close>

lemma rep12: "replicate 12 x = [x, x, x, x, x, x, x, x, x, x, x, x]"
  by (simp add: numeral_eq_Suc)

lemma upt12: "[0..<12] = [0, 1, 2, 3, 4, 5, 6, 7, 8, 9, 10, 11]"
  by (simp add: upt_conv_Cons)

text \<open>
  \<^verbatim>\<open>Object.entries(chordTypes)\<close> lists the key \<open>7\<close> first: it is the only key that
  is an array index.
\<close>

lemma own_keys_order_chordTypes:
  "own_keys_order chordTypes =
     [(''7'', [0, 4, 7, 10]), (''maj'', [0, 4, 7]), (''min'', [0, 3, 7]),
      (''dim'', [0, 3, 6]), (''aug'', [0, 4, 8])]"
  by (simp add: own_keys_order_def chordTypes_def is_array_index_def digit_of_def index_value_def)

text \<open>
  An index \<^verbatim>\<open>x % 12\<close> is below 12, so an assignment at it never extends a vector of
  length 12: it replaces an element, or, when negative, leaves the elements alone.
\<close>

lemma js_rem_12_bounds: "js_rem a 12 < 12"
proof (cases "a < 0")
  case True
  have "0 \<le> (- a) mod 12" by simp
  then show ?thesis using True by (simp add: js_rem_def)
next
  case False
  have "a mod 12 < 12" by simp
  then show ?thesis using False by (simp add: js_rem_def)
qed

lemma length_array_set_12: "length xs = 12 \<Longrightarrow> length (array_set xs (js_rem a 12) v) = 12"
proof -
  assume len: "length xs = 12"
  have "js_rem a 12 < 0 \<or> nat (js_rem a 12) < 12"
    using js_rem_12_bounds[of a] by linarith
  then show ?thesis using len by (auto simp add: array_set_def)
qed

lemma nth_array_set_12:
  assumes "length xs = 12" and "p < 12"
  shows "array_set xs (js_rem a 12) v ! p = (if js_rem a 12 = int p then v else xs ! p)"
proof (cases "js_rem a 12 < 0")
  case True
  then show ?thesis by (simp add: array_set_def)
next
  case False
  then have b: "nat (js_rem a 12) < 12"
    using js_rem_12_bounds[of a] by linarith
  have eq: "(js_rem a 12 = int p) = (nat (js_rem a 12) = p)" using False by linarith
  show ?thesis using b False assms by (simp add: array_set_def nth_list_update eq)
qed

lemma template_fold:
  "length t = 12 \<Longrightarrow>
   length (fold (\<lambda>interval template. array_set template (js_rem (r + interval) 12) (Num 1)) ivs t) = 12
   \<and> (\<forall>p<12. fold (\<lambda>interval template. array_set template (js_rem (r + interval) 12) (Num 1)) ivs t ! p
         = (if \<exists>i\<in>set ivs. js_rem (r + i) 12 = int p then Num 1 else t ! p))"
proof (induction ivs arbitrary: t)
  case Nil
  then show ?case by simp
next
  case (Cons i ivs)
  let ?f = "\<lambda>interval template. array_set template (js_rem (r + interval) 12) (Num 1)"
  let ?t = "array_set t (js_rem (r + i) 12) (Num 1)"
  have len: "length ?t = 12" using Cons.prems by (rule length_array_set_12)
  note IH = Cons.IH[OF len]
  have "fold ?f (i # ivs) t ! p = (if \<exists>j\<in>set (i # ivs). js_rem (r + j) 12 = int p then Num 1 else t ! p)"
    if p: "p < 12" for p
  proof -
    have nth: "?t ! p = (if js_rem (r + i) 12 = int p then Num 1 else t ! p)"
      using Cons.prems p by (rule nth_array_set_12)
    have "fold ?f (i # ivs) t ! p = fold ?f ivs ?t ! p" by simp
    also have "\<dots> = (if \<exists>j\<in>set ivs. js_rem (r + j) 12 = int p then Num 1 else ?t ! p)"
      using IH p by blast
    also have "\<dots> = (if \<exists>j\<in>set (i # ivs). js_rem (r + j) 12 = int p then Num 1 else t ! p)"
      unfolding nth by auto
    finally show ?thesis .
  qed
  moreover have "length (fold ?f (i # ivs) t) = 12" using IH by simp
  ultimately show ?case by blast
qed

lemma generateChordTemplate_length: "length (generateChordTemplate r ivs) = 12"
  using template_fold[of "replicate 12 (Num 0)" r ivs] by (simp add: generateChordTemplate_def)

lemma generateChordTemplate_nth:
  "p < 12 \<Longrightarrow> generateChordTemplate r ivs ! p
     = (if \<exists>i\<in>set ivs. js_rem (r + i) 12 = int p then Num 1 else Num 0)"
  using template_fold[of "replicate 12 (Num 0)" r ivs] by (simp add: generateChordTemplate_def)


text \<open>The library, entry by entry, in the order its keys were created.\<close>

lemma generateChordTemplates_eq: "generateChordTemplates =
     [(''C:7'', map Num [1, 0, 0, 0, 1, 0, 0, 1, 0, 0, 1, 0]),
      (''C:maj'', map Num [1, 0, 0, 0, 1, 0, 0, 1, 0, 0, 0, 0]),
      (''C:min'', map Num [1, 0, 0, 1, 0, 0, 0, 1, 0, 0, 0, 0]),
      (''C:dim'', map Num [1, 0, 0, 1, 0, 0, 1, 0, 0, 0, 0, 0]),
      (''C:aug'', map Num [1, 0, 0, 0, 1, 0, 0, 0, 1, 0, 0, 0]),
      (''C#:7'', map Num [0, 1, 0, 0, 0, 1, 0, 0, 1, 0, 0, 1]),
      (''C#:maj'', map Num [0, 1, 0, 0, 0, 1, 0, 0, 1, 0, 0, 0]),
      (''C#:min'', map Num [0, 1, 0, 0, 1, 0, 0, 0, 1, 0, 0, 0]),
      (''C#:dim'', map Num [0, 1, 0, 0, 1, 0, 0, 1, 0, 0, 0, 0]),
      (''C#:aug'', map Num [0, 1, 0, 0, 0, 1, 0, 0, 0, 1, 0, 0]),
      (''D:7'', map Num [1, 0, 1, 0, 0, 0, 1, 0, 0, 1, 0, 0]),
      (''D:maj'', map Num [0, 0, 1, 0, 0, 0, 1, 0, 0, 1, 0, 0]),
      (''D:min'', map Num [0, 0, 1, 0, 0, 1, 0, 0, 0, 1, 0, 0]),
      (''D:dim'', map Num [0, 0, 1, 0, 0, 1, 0, 0, 1, 0, 0, 0]),
      (''D:aug'', map Num [0, 0, 1, 0, 0, 0, 1, 0, 0, 0, 1, 0]),
      (''D#:7'', map Num [0, 1, 0, 1, 0, 0, 0, 1, 0, 0, 1, 0]),
      (''D#:maj'', map Num [0, 0, 0, 1, 0, 0, 0, 1, 0, 0, 1, 0]),
      (''D#:min'', map Num [0, 0, 0, 1, 0, 0, 1, 0, 0, 0, 1, 0]),
      (''D#:dim'', map Num [0, 0, 0, 1, 0, 0, 1, 0, 0, 1, 0, 0]),
      (''D#:aug'', map Num [0, 0, 0, 1, 0, 0, 0, 1, 0, 0, 0, 1]),
      (''E:7'', map Num [0, 0, 1, 0, 1, 0, 0, 0, 1, 0, 0, 1]),
      (''E:maj'', map Num [0, 0, 0, 0, 1, 0, 0, 0, 1, 0, 0, 1]),
      (''E:min'', map Num [0, 0, 0, 0, 1, 0, 0, 1, 0, 0, 0, 1]),
      (''E:dim'', map Num [0, 0, 0, 0, 1, 0, 0, 1, 0, 0, 1, 0]),
      (''E:aug'', map Num [1, 0, 0, 0, 1, 0, 0, 0, 1, 0, 0, 0]),
      (''F:7'', map Num [1, 0, 0, 1, 0, 1, 0, 0, 0, 1, 0, 0]),
      (''F:maj'', map Num [1, 0, 0, 0, 0, 1, 0, 0, 0, 1, 0, 0]),
      (''F:min'', map Num [1, 0, 0, 0, 0, 1, 0, 0, 1, 0, 0, 0]),
      (''F:dim'', map Num [0, 0, 0, 0, 0, 1, 0, 0, 1, 0, 0, 1]),
      (''F:aug'', map Num [0, 1, 0, 0, 0, 1, 0, 0, 0, 1, 0, 0]),
      (''F#:7'', map Num [0, 1, 0, 0, 1, 0, 1, 0, 0, 0, 1, 0]),
      (''F#:maj'', map Num [0, 1, 0, 0, 0, 0, 1, 0, 0, 0, 1, 0]),
      (''F#:min'', map Num [0, 1, 0, 0, 0, 0, 1, 0, 0, 1, 0, 0]),
      (''F#:dim'', map Num [1, 0, 0, 0, 0, 0, 1, 0, 0, 1, 0, 0]),
      (''F#:aug'', map Num [0, 0, 1, 0, 0, 0, 1, 0, 0, 0, 1, 0]),
      (''G:7'', map Num [0, 0, 1, 0, 0, 1, 0, 1, 0, 0, 0, 1]),
      (''G:maj'', map Num [0, 0, 1, 0, 0, 0, 0, 1, 0, 0, 0, 1]),
      (''G:min'', map Num [0, 0, 1, 0, 0, 0, 0, 1, 0, 0, 1, 0]),
      (''G:dim'', map Num [0, 1, 0, 0, 0, 0, 0, 1, 0, 0, 1, 0]),
      (''G:aug'', map Num [0, 0, 0, 1, 0, 0, 0, 1, 0, 0, 0, 1]),
      (''G#:7'', map Num [1, 0, 0, 1, 0, 0, 1, 0, 1, 0, 0, 0]),
      (''G#:maj'', map Num [1, 0, 0, 1, 0, 0, 0, 0, 1, 0, 0, 0]),
      (''G#:min'', map Num [0, 0, 0, 1, 0, 0, 0, 0, 1, 0, 0, 1]),
      (''G#:dim'', map Num [0, 0, 1, 0, 0, 0, 0, 0, 1, 0, 0, 1]),
      (''G#:aug'', map Num [1, 0, 0, 0, 1, 0, 0, 0, 1, 0, 0, 0]),
      (''A:7'', map Num [0, 1, 0, 0, 1, 0, 0, 1, 0, 1, 0, 0]),
      (''A:maj'', map Num [0, 1, 0, 0, 1, 0, 0, 0, 0, 1, 0, 0]),
      (''A:min'', map Num [1, 0, 0, 0, 1, 0, 0, 0, 0, 1, 0, 0]),
      (''A:dim'', map Num [1, 0, 0, 1, 0, 0, 0, 0, 0, 1, 0, 0]),
      (''A:aug'', map Num [0, 1, 0, 0, 0, 1, 0, 0, 0, 1, 0, 0]),
      (''A#:7'', map Num [0, 0, 1, 0, 0, 1, 0, 0, 1, 0, 1, 0]),
      (''A#:maj'', map Num [0, 0, 1, 0, 0, 1, 0, 0, 0, 0, 1, 0]),
      (''A#:min'', map Num [0, 1, 0, 0, 0, 1, 0, 0, 0, 0, 1, 0]),
      (''A#:dim'', map Num [0, 1, 0, 0, 1, 0, 0, 0, 0, 0, 1, 0]),
      (''A#:aug'', map Num [0, 0, 1, 0, 0, 0, 1, 0, 0, 0, 1, 0]),
      (''B:7'', map Num [0, 0, 0, 1, 0, 0, 1, 0, 0, 1, 0, 1]),
      (''B:maj'', map Num [0, 0, 0, 1, 0, 0, 1, 0, 0, 0, 0, 1]),
      (''B:min'', map Num [0, 0, 1, 0, 0, 0, 1, 0, 0, 0, 0, 1]),
      (''B:dim'', map Num [0, 0, 1, 0, 0, 1, 0, 0, 0, 0, 0, 1]),
      (''B:aug'', map Num [0, 0, 0, 1, 0, 0, 0, 1, 0, 0, 0, 1])]"
  by (simp add: generateChordTemplates_def own_keys_order_chordTypes upt12 rep12 noteNames_def
      generateChordTemplate_def array_set_def js_rem_def)

text \<open>
  Facts about every root and quality, by evaluation: the quantifiers over the twelve
  roots and five qualities are unfolded first, so that each instance is closed.
\<close>

lemma library_counts:
  "list_all (\<lambda>r. list_all (\<lambda>q.
       length (filter (\<lambda>x. x = Num 1) (generateChordTemplate (int r) (snd q))) = length (snd q)
       \<and> length (filter (\<lambda>x. x = Num 0) (generateChordTemplate (int r) (snd q)))
           = 12 - length (snd q)) chordTypes) [0..<12]"
  apply (simp only: upt12 chordTypes_def list.pred_inject simp_thms fst_conv snd_conv)
  apply (simp add: generateChordTemplate_def array_set_def js_rem_def rep12)
  done

lemma library_lookup:
  "list_all (\<lambda>r. list_all (\<lambda>q.
       map_of generateChordTemplates (noteNames ! r @ '':'' @ fst q)
         = Some (generateChordTemplate (int r) (snd q))) chordTypes) [0..<12]"
  apply (simp only: upt12 chordTypes_def list.pred_inject simp_thms fst_conv snd_conv)
  apply (simp add: generateChordTemplates_eq noteNames_def generateChordTemplate_def
      array_set_def js_rem_def rep12)
  done

lemma library_comprehension:
  "generateChordTemplates =
     concat (map (\<lambda>r. map (\<lambda>q. (noteNames ! r @ '':'' @ fst q, generateChordTemplate (int r) (snd q)))
                        (own_keys_order chordTypes)) [0..<12])"
  apply (simp only: upt12 own_keys_order_chordTypes list.map concat.simps fst_conv snd_conv)
  apply (simp add: generateChordTemplates_eq noteNames_def generateChordTemplate_def
      array_set_def js_rem_def rep12)
  done

lemma library_distinct: "distinct (map fst generateChordTemplates)"
  by (simp add: generateChordTemplates_eq)

lemma chordTypes_nonneg: "q \<in> set chordTypes \<Longrightarrow> i \<in> set (snd q) \<Longrightarrow> 0 \<le> i"
  by (auto simp add: chordTypes_def)

lemma js_rem_nonneg: "0 \<le> a \<Longrightarrow> js_rem a b = a mod b"
  by (simp add: js_rem_def)

section \<open>Rounding to binary64\<close>

lemma round_even_near:
  assumes "\<bar>r - of_int m\<bar> < 1 / 2"
  shows "round_even r = m"
proof (cases "of_int m \<le> r")
  case True
  then have f: "\<lfloor>r\<rfloor> = m" using assms by (intro floor_unique) linarith+
  show ?thesis using assms True by (simp add: round_even_def f)
next
  case False
  then have f: "\<lfloor>r\<rfloor> = m - 1" using assms by (intro floor_unique) (simp, linarith)+
  show ?thesis using assms False by (simp add: round_even_def f)
qed

lemma round_even_of_int [simp]: "round_even (of_int m) = m"
  by (rule round_even_near) simp

lemma round_even_tie:
  "round_even (of_int m + 1 / 2) = (if even m then m else m + 1)"
proof -
  have f: "\<lfloor>of_int m + 1 / 2 :: real\<rfloor> = m" by (intro floor_unique) simp_all
  show ?thesis by (simp add: round_even_def f)
qed

lemma round_even_le:
  assumes "r \<le> of_int n"
  shows "round_even r \<le> n"
proof (cases "r = of_int n")
  case True
  then show ?thesis by simp
next
  case False
  then have "r < of_int n" using assms by simp
  then have "\<lfloor>r\<rfloor> < n" by (simp add: floor_less_iff)
  then show ?thesis by (simp add: round_even_def Let_def)
qed

lemma round_even_ge:
  assumes "of_int n \<le> r"
  shows "n \<le> round_even r"
proof -
  have "n \<le> \<lfloor>r\<rfloor>" using assms by (simp add: le_floor_iff)
  then show ?thesis by (simp add: round_even_def Let_def)
qed

lemma binade_eq:
  assumes "2 powi e \<le> \<bar>x\<bar>" and "\<bar>x\<bar> < 2 powi (e + 1)"
  shows "binade x = e"
proof -
  have pos: "0 < \<bar>x\<bar>" using assms(1) zero_less_power_int[of "2::real" e] by linarith
  have a: "2 powr of_int e = (2::real) powi e" by (intro powr_real_of_int') simp_all
  have b: "2 powr (of_int e + 1) = (2::real) powi (e + 1)"
    using powr_real_of_int'[of "2::real" "e + 1"] by simp
  show ?thesis
    unfolding binade_def using pos assms by (simp add: floor_log_eq_powr_iff a b)
qed

lemma binade_le:
  assumes "x \<noteq> 0" and "\<bar>x\<bar> \<le> 2 powi k"
  shows "binade x \<le> k"
proof -
  have pos: "0 < \<bar>x\<bar>" using assms(1) by simp
  have a: "2 powr of_int k = (2::real) powi k" by (intro powr_real_of_int') simp_all
  have "log 2 \<bar>x\<bar> \<le> of_int k"
    using pos assms(2) by (simp add: log_le_iff a)
  then have "\<lfloor>log 2 \<bar>x\<bar>\<rfloor> \<le> k" by (simp add: floor_le_iff)
  then show ?thesis by (simp add: binade_def)
qed

lemma fl_eval:
  assumes "2 powi e \<le> \<bar>x\<bar>" and "\<bar>x\<bar> < 2 powi (e + 1)" and "- 1022 \<le> e"
    and "round_even (x / 2 powi (e - 52)) = m"
    and "\<bar>of_int m * 2 powi (e - 52)\<bar> < (2::real) ^ 1024"
  shows "fl x = Num (of_int m * 2 powi (e - 52))"
proof -
  have p: "0 < (2::real) powi e" by simp
  have nz: "x \<noteq> 0"
  proof
    assume "x = 0"
    then have "(2::real) powi e \<le> 0" using assms(1) by simp
    then show False using p by linarith
  qed
  have b: "binade x = e" using assms(1,2) by (rule binade_eq)
  have m: "max e (- 1022) = e" using assms(3) by simp
  show ?thesis using nz assms(4,5) by (simp add: fl_def b m Let_def not_le)
qed

lemma fl_zero [simp]: "fl 0 = Num 0"
  by (simp add: fl_def)

lemma fl_le_pow2:
  assumes "0 \<le> x" and "x \<le> 2 powi k" and "- 1022 \<le> k" and "k \<le> 1023"
  shows "\<exists>r. fl x = Num r \<and> 0 \<le> r \<and> r \<le> 2 powi k"
proof (cases "x = 0")
  case True
  then show ?thesis by simp
next
  case False
  define e where "e = max (binade x) (- 1022)"
  define q :: real where "q = 2 powi (e - 52)"
  define y where "y = of_int (round_even (x / q)) * q"
  have qpos: "0 < q" by (simp add: q_def)
  have "binade x \<le> k" using False assms(1,2) by (intro binade_le) simp_all
  then have ek: "e \<le> k" using assms(3) by (simp add: e_def)
  define N :: int where "N = 2 ^ nat (k - e + 52)"
  have "2 powi k = (2::real) powi (k - e + 52) * 2 powi (e - 52)"
    by (simp flip: power_int_add)
  also have "(2::real) powi (k - e + 52) = of_int N"
    using ek by (simp add: N_def power_int_def)
  finally have grid: "2 powi k = of_int N * q" by (simp add: q_def)
  have "x / q \<le> of_int N" using assms(2) qpos by (simp add: grid pos_divide_le_eq)
  then have up: "round_even (x / q) \<le> N" by (rule round_even_le)
  have "of_int 0 \<le> x / q" using assms(1) qpos by simp
  then have lo: "0 \<le> round_even (x / q)" by (rule round_even_ge)
  have y0: "0 \<le> y" using lo qpos by (simp add: y_def)
  have "y \<le> of_int N * q" unfolding y_def using up qpos by (intro mult_right_mono) simp_all
  then have yk: "y \<le> 2 powi k" by (simp add: grid)
  have "(2::real) powi k \<le> 2 powi 1023" using assms(4) by (intro power_int_increasing) simp_all
  also have "\<dots> < (2::real) ^ 1024" by simp
  finally have "\<bar>y\<bar> < 2 ^ 1024" using y0 yk by linarith
  then have "fl x = Num y"
    using False by (simp add: fl_def Let_def e_def[symmetric] q_def[symmetric] y_def[symmetric] not_le)
  then show ?thesis using y0 yk by blast
qed

section \<open>Rotation of a chroma vector\<close>

lemma shift_fold_nth:
  assumes "\<forall>i\<in>set is. 0 \<le> K i \<and> nat (K i) < length acc0" and "inj_on K (set is)"
  shows "length (fold (\<lambda>i acc. array_set acc (K i) (hpcp ! i)) is acc0) = length acc0
         \<and> (\<forall>i\<in>set is. fold (\<lambda>i acc. array_set acc (K i) (hpcp ! i)) is acc0 ! nat (K i) = hpcp ! i)"
  using assms
proof (induction "is" rule: rev_induct)
  case Nil
  then show ?case by simp
next
  case (snoc x "is")
  let ?f = "\<lambda>i acc. array_set acc (K i) (hpcp ! i)"
  let ?acc = "fold ?f is acc0"
  have r: "\<forall>i\<in>set is. 0 \<le> K i \<and> nat (K i) < length acc0" using snoc.prems(1) by simp
  have inj: "inj_on K (set is)" using snoc.prems(2) by (simp add: inj_on_def)
  have IH: "length ?acc = length acc0" "\<forall>i\<in>set is. ?acc ! nat (K i) = hpcp ! i"
    using snoc.IH[OF r inj] by simp_all
  have x: "0 \<le> K x" "nat (K x) < length ?acc" using snoc.prems(1) IH(1) by simp_all
  have step: "fold ?f (is @ [x]) acc0 = ?acc[nat (K x) := hpcp ! x]"
    using x by (simp add: array_set_def)
  have "fold ?f (is @ [x]) acc0 ! nat (K i) = hpcp ! i" if i: "i \<in> set (is @ [x])" for i
  proof (cases "K i = K x")
    case True
    then have "i = x" using inj_onD[OF snoc.prems(2) True] i by simp
    then show ?thesis unfolding step using x(2) by simp
  next
    case False
    then have "i \<in> set is" using i by auto
    moreover have "nat (K i) \<noteq> nat (K x)" using False x(1) snoc.prems(1) i by auto
    ultimately show ?thesis unfolding step using IH(2) by simp
  qed
  moreover have "length (fold ?f (is @ [x]) acc0) = length acc0"
    unfolding step using IH(1) by simp
  ultimately show ?case by blast
qed

lemma shift_index_inj:
  assumes "(int i + c) mod int n = (int j + c) mod int n" and "i < n" and "j < n"
  shows "i = j"
proof -
  have "int n dvd (int i + c) - (int j + c)" using assms(1) by (simp add: mod_eq_dvd_iff)
  then have d: "int n dvd int i - int j" by simp
  have b: "\<bar>int i - int j\<bar> < int n" using assms(2,3) by linarith
  have "int i - int j = 0"
  proof (rule ccontr)
    assume "int i - int j \<noteq> 0"
    then have "\<bar>int n\<bar> \<le> \<bar>int i - int j\<bar>" using d by (rule dvd_imp_le_int)
    then show False using b by simp
  qed
  then show ?thesis by simp
qed

lemma nat_mod_less:
  assumes "0 < n"
  shows "nat (a mod int n) < n"
proof -
  have "0 \<le> a mod int n" and "a mod int n < int n" using assms by simp_all
  then show ?thesis by linarith
qed

lemma shiftHPCP_nth:
  assumes "- int (length v) \<le> s" and "i < length v"
  shows "length (shiftHPCP v s) = length v
         \<and> shiftHPCP v s ! nat ((int i + s) mod int (length v)) = v ! i"
proof -
  let ?n = "length v"
  let ?K = "\<lambda>i. js_rem (int i + s + int ?n) (int ?n)"
  have pos: "0 < int ?n" using assms(2) by auto
  have K: "?K j = (int j + s) mod int ?n" for j
    using assms(1) by (simp add: js_rem_def)
  have n: "0 < ?n" using assms(2) by auto
  have r: "\<forall>j\<in>set [0..<?n]. 0 \<le> ?K j \<and> nat (?K j) < length (replicate ?n Undefined)"
    using pos nat_mod_less[OF n] by (simp add: K)
  have inj: "inj_on ?K (set [0..<?n])"
    unfolding K by (rule inj_onI) (use shift_index_inj in auto)
  have i: "i \<in> set [0..<?n]" using assms(2) by simp
  from shift_fold_nth[of "[0..<?n]" ?K "replicate ?n Undefined" v, OF r inj] i
  show ?thesis by (simp add: shiftHPCP_def Let_def K)
qed

section \<open>Similarity of an all-zero vector\<close>

lemma rounded_zero_or_nan: "zero_or_nan x \<Longrightarrow> zero_or_nan (rounded x)"
  by (auto simp add: zero_or_nan_def)

lemma js_mul_zero_left: "zero_or_nan (js_mul (Num 0) x)"
  by (cases x) (simp_all add: zero_or_nan_def)

lemma dbl_mul_zero_left: "zero_or_nan (dbl_mul (Num 0) x)"
  unfolding dbl_mul_def using js_mul_zero_left by (rule rounded_zero_or_nan)

lemma js_add_zero_or_nan: "zero_or_nan x \<Longrightarrow> zero_or_nan y \<Longrightarrow> zero_or_nan (js_add x y)"
  by (auto simp add: zero_or_nan_def)

lemma dbl_add_zero_or_nan: "zero_or_nan x \<Longrightarrow> zero_or_nan y \<Longrightarrow> zero_or_nan (dbl_add x y)"
  unfolding dbl_add_def by (intro rounded_zero_or_nan js_add_zero_or_nan)

lemma js_div_zero_or_nan: "zero_or_nan x \<Longrightarrow> zero_or_nan y \<Longrightarrow> js_div x y = NaN"
  by (auto simp add: zero_or_nan_def)

lemma dbl_div_zero_or_nan: "zero_or_nan x \<Longrightarrow> zero_or_nan y \<Longrightarrow> dbl_div x y = NaN"
  by (simp add: dbl_div_def js_div_zero_or_nan)

lemma dbl_add_zero_zero: "dbl_add (Num 0) (dbl_mul (Num 0) (Num 0)) = Num 0"
  by (simp add: dbl_add_def dbl_mul_def)

lemma cosine_fold_zero:
  assumes "\<forall>i\<in>set is. a ! i = Num 0" and "zero_or_nan d"
  shows "\<exists>d' nb'. fold (\<lambda>i (dot, normA, normB).
                  (dbl_add dot (dbl_mul (a ! i) (js_index b i)),
                   dbl_add normA (dbl_mul (a ! i) (a ! i)),
                   dbl_add normB (dbl_mul (js_index b i) (js_index b i))))
            is (d, Num 0, nb) = (d', Num 0, nb') \<and> zero_or_nan d'"
  using assms
proof (induction "is" arbitrary: d nb)
  case Nil
  then show ?case by simp
next
  case (Cons i "is")
  have a: "a ! i = Num 0" using Cons.prems by simp
  have d: "zero_or_nan (dbl_add d (dbl_mul (Num 0) (js_index b i)))"
    using Cons.prems(2) dbl_mul_zero_left by (rule dbl_add_zero_or_nan)
  have rest: "\<forall>i\<in>set is. a ! i = Num 0" using Cons.prems by simp
  show ?case using Cons.IH[OF rest d] by (simp add: a dbl_add_zero_zero)
qed

lemma cosineSimilarity_zero:
  "cosineSimilarity (replicate n (Num 0)) b = NaN"
proof -
  let ?a = "replicate n (Num 0)"
  have z: "\<forall>i\<in>set [0..<length ?a]. ?a ! i = Num 0" by simp
  have z0: "zero_or_nan (Num 0)" by (simp add: zero_or_nan_def)
  from cosine_fold_zero[OF z z0, of b "Num 0"] obtain d' nb' where
    f: "fold (\<lambda>i (dot, normA, normB).
                  (dbl_add dot (dbl_mul (?a ! i) (js_index b i)),
                   dbl_add normA (dbl_mul (?a ! i) (?a ! i)),
                   dbl_add normB (dbl_mul (js_index b i) (js_index b i))))
            [0..<length ?a] (Num 0, Num 0, Num 0) = (d', Num 0, nb')" and d: "zero_or_nan d'"
    by blast
  have s0: "dbl_sqrt (Num 0) = Num 0" by (simp add: dbl_sqrt_def)
  have "zero_or_nan (dbl_mul (dbl_sqrt (Num 0)) (dbl_sqrt nb'))"
    unfolding s0 by (rule dbl_mul_zero_left)
  then have "dbl_div d' (dbl_mul (dbl_sqrt (Num 0)) (dbl_sqrt nb')) = NaN"
    using d by (rule dbl_div_zero_or_nan[rotated])
  then show ?thesis unfolding cosineSimilarity_def f by simp
qed

lemma js_gt_NaN: "\<not> js_gt NaN x"
  by (cases x) (simp_all add: js_gt_def)

lemma detectChord_fold_NaN:
  "\<forall>e\<in>set es. cosineSimilarity v (snd e) = NaN \<Longrightarrow> fold (detectChord_step v) es best = best"
  by (induction es arbitrary: best) (simp_all add: detectChord_step_def js_gt_NaN)

lemma detectChord_zero: "detectChord (replicate n (Num 0)) templates = None"
  by (simp add: detectChord_def detectChord_loop_def detectChord_fold_NaN cosineSimilarity_zero)

section \<open>Binary64 operations on the values of the examples\<close>

text \<open>
  The sums, products, quotients and square roots that occur when the vector of
  C major, and a vector with two entries of \<open>2^(-53)\<close>, are scored against the library:
  each result is the exact one rounded to nearest, ties to even.
\<close>

lemma dbl_add_1:
  "dbl_add (Num 0) (Num 0) = Num 0"
  by (simp add: dbl_add_def)

lemma dbl_add_2:
  "dbl_add (Num 0) (Num (1 / 9007199254740992)) = Num (1 / 9007199254740992)"
proof -
  have "fl (0 + (1 / 9007199254740992)) = Num (of_int 4503599627370496 * 2 powi (-53 - 52))"
  proof (rule fl_eval)
    show "round_even ((0 + (1 / 9007199254740992)) / 2 powi (-53 - 52)) = 4503599627370496"
      by (rule round_even_near) (simp add: abs_less_iff)
  qed simp_all
  then show ?thesis by (simp add: dbl_add_def)
qed

lemma dbl_add_3:
  "dbl_add (Num 0) (Num 1) = Num 1"
proof -
  have "fl (0 + 1) = Num (of_int 4503599627370496 * 2 powi (0 - 52))"
  proof (rule fl_eval)
    show "round_even ((0 + 1) / 2 powi (0 - 52)) = 4503599627370496"
      by (rule round_even_near) (simp add: abs_less_iff)
  qed simp_all
  then show ?thesis by (simp add: dbl_add_def)
qed

lemma dbl_add_4:
  "dbl_add (Num (1 / 9007199254740992)) (Num 0) = Num (1 / 9007199254740992)"
proof -
  have "fl ((1 / 9007199254740992) + 0) = Num (of_int 4503599627370496 * 2 powi (-53 - 52))"
  proof (rule fl_eval)
    show "round_even (((1 / 9007199254740992) + 0) / 2 powi (-53 - 52)) = 4503599627370496"
      by (rule round_even_near) (simp add: abs_less_iff)
  qed simp_all
  then show ?thesis by (simp add: dbl_add_def)
qed

lemma dbl_add_5:
  "dbl_add (Num (1 / 9007199254740992)) (Num (1 / 9007199254740992)) = Num (1 / 4503599627370496)"
proof -
  have "fl ((1 / 9007199254740992) + (1 / 9007199254740992)) = Num (of_int 4503599627370496 * 2 powi (-52 - 52))"
  proof (rule fl_eval)
    show "round_even (((1 / 9007199254740992) + (1 / 9007199254740992)) / 2 powi (-52 - 52)) = 4503599627370496"
      by (rule round_even_near) (simp add: abs_less_iff)
  qed simp_all
  then show ?thesis by (simp add: dbl_add_def)
qed

lemma dbl_add_6:
  "dbl_add (Num (1 / 9007199254740992)) (Num 1) = Num 1"
proof -
  have "fl ((1 / 9007199254740992) + 1) = Num (of_int 4503599627370496 * 2 powi (0 - 52))"
  proof (rule fl_eval)
    have "((1 / 9007199254740992) + 1) / 2 powi (0 - 52) = of_int 4503599627370496 + 1 / (2::real)" by simp
    then show "round_even (((1 / 9007199254740992) + 1) / 2 powi (0 - 52)) = 4503599627370496"
      by (simp only: round_even_tie) simp
  qed simp_all
  then show ?thesis by (simp add: dbl_add_def)
qed

lemma dbl_add_7:
  "dbl_add (Num (1 / 4503599627370496)) (Num 0) = Num (1 / 4503599627370496)"
proof -
  have "fl ((1 / 4503599627370496) + 0) = Num (of_int 4503599627370496 * 2 powi (-52 - 52))"
  proof (rule fl_eval)
    show "round_even (((1 / 4503599627370496) + 0) / 2 powi (-52 - 52)) = 4503599627370496"
      by (rule round_even_near) (simp add: abs_less_iff)
  qed simp_all
  then show ?thesis by (simp add: dbl_add_def)
qed

lemma dbl_add_8:
  "dbl_add (Num (1 / 4503599627370496)) (Num 1) = Num (4503599627370497 / 4503599627370496)"
proof -
  have "fl ((1 / 4503599627370496) + 1) = Num (of_int 4503599627370497 * 2 powi (0 - 52))"
  proof (rule fl_eval)
    show "round_even (((1 / 4503599627370496) + 1) / 2 powi (0 - 52)) = 4503599627370497"
      by (rule round_even_near) (simp add: abs_less_iff)
  qed simp_all
  then show ?thesis by (simp add: dbl_add_def)
qed

lemma dbl_add_9:
  "dbl_add (Num 1) (Num 0) = Num 1"
proof -
  have "fl (1 + 0) = Num (of_int 4503599627370496 * 2 powi (0 - 52))"
  proof (rule fl_eval)
    show "round_even ((1 + 0) / 2 powi (0 - 52)) = 4503599627370496"
      by (rule round_even_near) (simp add: abs_less_iff)
  qed simp_all
  then show ?thesis by (simp add: dbl_add_def)
qed

lemma dbl_add_10:
  "dbl_add (Num 1) (Num (1 / 81129638414606681695789005144064)) = Num 1"
proof -
  have "fl (1 + (1 / 81129638414606681695789005144064)) = Num (of_int 4503599627370496 * 2 powi (0 - 52))"
  proof (rule fl_eval)
    show "round_even ((1 + (1 / 81129638414606681695789005144064)) / 2 powi (0 - 52)) = 4503599627370496"
      by (rule round_even_near) (simp add: abs_less_iff)
  qed simp_all
  then show ?thesis by (simp add: dbl_add_def)
qed

lemma dbl_add_11:
  "dbl_add (Num 1) (Num (1 / 9007199254740992)) = Num 1"
proof -
  have "fl (1 + (1 / 9007199254740992)) = Num (of_int 4503599627370496 * 2 powi (0 - 52))"
  proof (rule fl_eval)
    have "(1 + (1 / 9007199254740992)) / 2 powi (0 - 52) = of_int 4503599627370496 + 1 / (2::real)" by simp
    then show "round_even ((1 + (1 / 9007199254740992)) / 2 powi (0 - 52)) = 4503599627370496"
      by (simp only: round_even_tie) simp
  qed simp_all
  then show ?thesis by (simp add: dbl_add_def)
qed

lemma dbl_add_12:
  "dbl_add (Num 1) (Num 1) = Num 2"
proof -
  have "fl (1 + 1) = Num (of_int 4503599627370496 * 2 powi (1 - 52))"
  proof (rule fl_eval)
    show "round_even ((1 + 1) / 2 powi (1 - 52)) = 4503599627370496"
      by (rule round_even_near) (simp add: abs_less_iff)
  qed simp_all
  then show ?thesis by (simp add: dbl_add_def)
qed

lemma dbl_add_13:
  "dbl_add (Num 2) (Num 0) = Num 2"
proof -
  have "fl (2 + 0) = Num (of_int 4503599627370496 * 2 powi (1 - 52))"
  proof (rule fl_eval)
    show "round_even ((2 + 0) / 2 powi (1 - 52)) = 4503599627370496"
      by (rule round_even_near) (simp add: abs_less_iff)
  qed simp_all
  then show ?thesis by (simp add: dbl_add_def)
qed

lemma dbl_add_14:
  "dbl_add (Num 2) (Num 1) = Num 3"
proof -
  have "fl (2 + 1) = Num (of_int 6755399441055744 * 2 powi (1 - 52))"
  proof (rule fl_eval)
    show "round_even ((2 + 1) / 2 powi (1 - 52)) = 6755399441055744"
      by (rule round_even_near) (simp add: abs_less_iff)
  qed simp_all
  then show ?thesis by (simp add: dbl_add_def)
qed

lemma dbl_add_15:
  "dbl_add (Num 3) (Num 0) = Num 3"
proof -
  have "fl (3 + 0) = Num (of_int 6755399441055744 * 2 powi (1 - 52))"
  proof (rule fl_eval)
    show "round_even ((3 + 0) / 2 powi (1 - 52)) = 6755399441055744"
      by (rule round_even_near) (simp add: abs_less_iff)
  qed simp_all
  then show ?thesis by (simp add: dbl_add_def)
qed

lemma dbl_add_16:
  "dbl_add (Num 3) (Num 1) = Num 4"
proof -
  have "fl (3 + 1) = Num (of_int 4503599627370496 * 2 powi (2 - 52))"
  proof (rule fl_eval)
    show "round_even ((3 + 1) / 2 powi (2 - 52)) = 4503599627370496"
      by (rule round_even_near) (simp add: abs_less_iff)
  qed simp_all
  then show ?thesis by (simp add: dbl_add_def)
qed

lemma dbl_add_17:
  "dbl_add (Num 4) (Num 0) = Num 4"
proof -
  have "fl (4 + 0) = Num (of_int 4503599627370496 * 2 powi (2 - 52))"
  proof (rule fl_eval)
    show "round_even ((4 + 0) / 2 powi (2 - 52)) = 4503599627370496"
      by (rule round_even_near) (simp add: abs_less_iff)
  qed simp_all
  then show ?thesis by (simp add: dbl_add_def)
qed

lemma dbl_div_1:
  "dbl_div (Num 0) (Num (5515760546423087 / 2251799813685248)) = Num 0"
  by (simp add: dbl_div_def)

lemma dbl_div_2:
  "dbl_div (Num 0) (Num (6369051672525773 / 2251799813685248)) = Num 0"
  by (simp add: dbl_div_def)

lemma dbl_div_3:
  "dbl_div (Num 0) (Num (6755399441055743 / 2251799813685248)) = Num 0"
  by (simp add: dbl_div_def)

lemma dbl_div_4:
  "dbl_div (Num 0) (Num (3900231685776981 / 1125899906842624)) = Num 0"
  by (simp add: dbl_div_def)

lemma dbl_div_5:
  "dbl_div (Num (1 / 9007199254740992)) (Num (5515760546423087 / 2251799813685248)) = Num (7354347395230781 / 162259276829213363391578010288128)"
proof -
  have "fl ((1 / 9007199254740992) / (5515760546423087 / 2251799813685248)) = Num (of_int 7354347395230781 * 2 powi (-55 - 52))"
  proof (rule fl_eval)
    show "round_even (((1 / 9007199254740992) / (5515760546423087 / 2251799813685248)) / 2 powi (-55 - 52)) = 7354347395230781"
      by (rule round_even_near) (simp add: abs_less_iff)
  qed simp_all
  then show ?thesis by (simp add: dbl_div_def)
qed

lemma dbl_div_6:
  "dbl_div (Num (1 / 9007199254740992)) (Num (6369051672525773 / 2251799813685248)) = Num (1592262918131443 / 40564819207303340847894502572032)"
proof -
  have "fl ((1 / 9007199254740992) / (6369051672525773 / 2251799813685248)) = Num (of_int 6369051672525772 * 2 powi (-55 - 52))"
  proof (rule fl_eval)
    show "round_even (((1 / 9007199254740992) / (6369051672525773 / 2251799813685248)) / 2 powi (-55 - 52)) = 6369051672525772"
      by (rule round_even_near) (simp add: abs_less_iff)
  qed simp_all
  then show ?thesis by (simp add: dbl_div_def)
qed

lemma dbl_div_7:
  "dbl_div (Num 1) (Num (5515760546423087 / 2251799813685248)) = Num (7354347395230781 / 18014398509481984)"
proof -
  have "fl (1 / (5515760546423087 / 2251799813685248)) = Num (of_int 7354347395230781 * 2 powi (-2 - 52))"
  proof (rule fl_eval)
    show "round_even ((1 / (5515760546423087 / 2251799813685248)) / 2 powi (-2 - 52)) = 7354347395230781"
      by (rule round_even_near) (simp add: abs_less_iff)
  qed simp_all
  then show ?thesis by (simp add: dbl_div_def)
qed

lemma dbl_div_8:
  "dbl_div (Num 1) (Num (6369051672525773 / 2251799813685248)) = Num (1592262918131443 / 4503599627370496)"
proof -
  have "fl (1 / (6369051672525773 / 2251799813685248)) = Num (of_int 6369051672525772 * 2 powi (-2 - 52))"
  proof (rule fl_eval)
    show "round_even ((1 / (6369051672525773 / 2251799813685248)) / 2 powi (-2 - 52)) = 6369051672525772"
      by (rule round_even_near) (simp add: abs_less_iff)
  qed simp_all
  then show ?thesis by (simp add: dbl_div_def)
qed

lemma dbl_div_9:
  "dbl_div (Num 1) (Num (6755399441055743 / 2251799813685248)) = Num (3002399751580331 / 9007199254740992)"
proof -
  have "fl (1 / (6755399441055743 / 2251799813685248)) = Num (of_int 6004799503160662 * 2 powi (-2 - 52))"
  proof (rule fl_eval)
    show "round_even ((1 / (6755399441055743 / 2251799813685248)) / 2 powi (-2 - 52)) = 6004799503160662"
      by (rule round_even_near) (simp add: abs_less_iff)
  qed simp_all
  then show ?thesis by (simp add: dbl_div_def)
qed

lemma dbl_div_10:
  "dbl_div (Num 1) (Num (3900231685776981 / 1125899906842624)) = Num (5200308914369309 / 18014398509481984)"
proof -
  have "fl (1 / (3900231685776981 / 1125899906842624)) = Num (of_int 5200308914369309 * 2 powi (-2 - 52))"
  proof (rule fl_eval)
    show "round_even ((1 / (3900231685776981 / 1125899906842624)) / 2 powi (-2 - 52)) = 5200308914369309"
      by (rule round_even_near) (simp add: abs_less_iff)
  qed simp_all
  then show ?thesis by (simp add: dbl_div_def)
qed

lemma dbl_div_11:
  "dbl_div (Num (4503599627370497 / 4503599627370496)) (Num (5515760546423087 / 2251799813685248)) = Num (7354347395230783 / 18014398509481984)"
proof -
  have "fl ((4503599627370497 / 4503599627370496) / (5515760546423087 / 2251799813685248)) = Num (of_int 7354347395230783 * 2 powi (-2 - 52))"
  proof (rule fl_eval)
    show "round_even (((4503599627370497 / 4503599627370496) / (5515760546423087 / 2251799813685248)) / 2 powi (-2 - 52)) = 7354347395230783"
      by (rule round_even_near) (simp add: abs_less_iff)
  qed simp_all
  then show ?thesis by (simp add: dbl_div_def)
qed

lemma dbl_div_12:
  "dbl_div (Num 2) (Num (6755399441055743 / 2251799813685248)) = Num (3002399751580331 / 4503599627370496)"
proof -
  have "fl (2 / (6755399441055743 / 2251799813685248)) = Num (of_int 6004799503160662 * 2 powi (-1 - 52))"
  proof (rule fl_eval)
    show "round_even ((2 / (6755399441055743 / 2251799813685248)) / 2 powi (-1 - 52)) = 6004799503160662"
      by (rule round_even_near) (simp add: abs_less_iff)
  qed simp_all
  then show ?thesis by (simp add: dbl_div_def)
qed

lemma dbl_div_13:
  "dbl_div (Num 2) (Num (3900231685776981 / 1125899906842624)) = Num (5200308914369309 / 9007199254740992)"
proof -
  have "fl (2 / (3900231685776981 / 1125899906842624)) = Num (of_int 5200308914369309 * 2 powi (-1 - 52))"
  proof (rule fl_eval)
    show "round_even ((2 / (3900231685776981 / 1125899906842624)) / 2 powi (-1 - 52)) = 5200308914369309"
      by (rule round_even_near) (simp add: abs_less_iff)
  qed simp_all
  then show ?thesis by (simp add: dbl_div_def)
qed

lemma dbl_div_14:
  "dbl_div (Num 3) (Num (6755399441055743 / 2251799813685248)) = Num (4503599627370497 / 4503599627370496)"
proof -
  have "fl (3 / (6755399441055743 / 2251799813685248)) = Num (of_int 4503599627370497 * 2 powi (0 - 52))"
  proof (rule fl_eval)
    show "round_even ((3 / (6755399441055743 / 2251799813685248)) / 2 powi (0 - 52)) = 4503599627370497"
      by (rule round_even_near) (simp add: abs_less_iff)
  qed simp_all
  then show ?thesis by (simp add: dbl_div_def)
qed

lemma dbl_div_15:
  "dbl_div (Num 3) (Num (3900231685776981 / 1125899906842624)) = Num (7800463371553963 / 9007199254740992)"
proof -
  have "fl (3 / (3900231685776981 / 1125899906842624)) = Num (of_int 7800463371553963 * 2 powi (-1 - 52))"
  proof (rule fl_eval)
    show "round_even ((3 / (3900231685776981 / 1125899906842624)) / 2 powi (-1 - 52)) = 7800463371553963"
      by (rule round_even_near) (simp add: abs_less_iff)
  qed simp_all
  then show ?thesis by (simp add: dbl_div_def)
qed

lemma dbl_mul_1:
  "dbl_mul (Num 0) (Num 0) = Num 0"
  by (simp add: dbl_mul_def)

lemma dbl_mul_2:
  "dbl_mul (Num 0) (Num 1) = Num 0"
  by (simp add: dbl_mul_def)

lemma dbl_mul_3:
  "dbl_mul (Num (1 / 9007199254740992)) (Num 0) = Num 0"
  by (simp add: dbl_mul_def)

lemma dbl_mul_4:
  "dbl_mul (Num (1 / 9007199254740992)) (Num (1 / 9007199254740992)) = Num (1 / 81129638414606681695789005144064)"
proof -
  have "fl ((1 / 9007199254740992) * (1 / 9007199254740992)) = Num (of_int 4503599627370496 * 2 powi (-106 - 52))"
  proof (rule fl_eval)
    show "round_even (((1 / 9007199254740992) * (1 / 9007199254740992)) / 2 powi (-106 - 52)) = 4503599627370496"
      by (rule round_even_near) (simp add: abs_less_iff)
  qed simp_all
  then show ?thesis by (simp add: dbl_mul_def)
qed

lemma dbl_mul_5:
  "dbl_mul (Num (1 / 9007199254740992)) (Num 1) = Num (1 / 9007199254740992)"
proof -
  have "fl ((1 / 9007199254740992) * 1) = Num (of_int 4503599627370496 * 2 powi (-53 - 52))"
  proof (rule fl_eval)
    show "round_even (((1 / 9007199254740992) * 1) / 2 powi (-53 - 52)) = 4503599627370496"
      by (rule round_even_near) (simp add: abs_less_iff)
  qed simp_all
  then show ?thesis by (simp add: dbl_mul_def)
qed

lemma dbl_mul_6:
  "dbl_mul (Num 1) (Num 0) = Num 0"
  by (simp add: dbl_mul_def)

lemma dbl_mul_7:
  "dbl_mul (Num 1) (Num 1) = Num 1"
proof -
  have "fl (1 * 1) = Num (of_int 4503599627370496 * 2 powi (0 - 52))"
  proof (rule fl_eval)
    show "round_even ((1 * 1) / 2 powi (0 - 52)) = 4503599627370496"
      by (rule round_even_near) (simp add: abs_less_iff)
  qed simp_all
  then show ?thesis by (simp add: dbl_mul_def)
qed

lemma dbl_mul_8:
  "dbl_mul (Num (6369051672525773 / 4503599627370496)) (Num (3900231685776981 / 2251799813685248)) = Num (5515760546423087 / 2251799813685248)"
proof -
  have "fl ((6369051672525773 / 4503599627370496) * (3900231685776981 / 2251799813685248)) = Num (of_int 5515760546423087 * 2 powi (1 - 52))"
  proof (rule fl_eval)
    show "round_even (((6369051672525773 / 4503599627370496) * (3900231685776981 / 2251799813685248)) / 2 powi (1 - 52)) = 5515760546423087"
      by (rule round_even_near) (simp add: abs_less_iff)
  qed simp_all
  then show ?thesis by (simp add: dbl_mul_def)
qed

lemma dbl_mul_9:
  "dbl_mul (Num (6369051672525773 / 4503599627370496)) (Num 2) = Num (6369051672525773 / 2251799813685248)"
proof -
  have "fl ((6369051672525773 / 4503599627370496) * 2) = Num (of_int 6369051672525773 * 2 powi (1 - 52))"
  proof (rule fl_eval)
    show "round_even (((6369051672525773 / 4503599627370496) * 2) / 2 powi (1 - 52)) = 6369051672525773"
      by (rule round_even_near) (simp add: abs_less_iff)
  qed simp_all
  then show ?thesis by (simp add: dbl_mul_def)
qed

lemma dbl_mul_10:
  "dbl_mul (Num (3900231685776981 / 2251799813685248)) (Num (3900231685776981 / 2251799813685248)) = Num (6755399441055743 / 2251799813685248)"
proof -
  have "fl ((3900231685776981 / 2251799813685248) * (3900231685776981 / 2251799813685248)) = Num (of_int 6755399441055743 * 2 powi (1 - 52))"
  proof (rule fl_eval)
    show "round_even (((3900231685776981 / 2251799813685248) * (3900231685776981 / 2251799813685248)) / 2 powi (1 - 52)) = 6755399441055743"
      by (rule round_even_near) (simp add: abs_less_iff)
  qed simp_all
  then show ?thesis by (simp add: dbl_mul_def)
qed

lemma dbl_mul_11:
  "dbl_mul (Num (3900231685776981 / 2251799813685248)) (Num 2) = Num (3900231685776981 / 1125899906842624)"
proof -
  have "fl ((3900231685776981 / 2251799813685248) * 2) = Num (of_int 7800463371553962 * 2 powi (1 - 52))"
  proof (rule fl_eval)
    show "round_even (((3900231685776981 / 2251799813685248) * 2) / 2 powi (1 - 52)) = 7800463371553962"
      by (rule round_even_near) (simp add: abs_less_iff)
  qed simp_all
  then show ?thesis by (simp add: dbl_mul_def)
qed

lemma dbl_sqrt_1:
  "dbl_sqrt (Num 2) = Num (6369051672525773 / 4503599627370496)"
proof -
  have lo: "12738103345051545 / 9007199254740992 < sqrt 2"
    by (rule real_less_rsqrt) (simp add: power2_eq_square)
  have hi: "sqrt 2 < 12738103345051547 / 9007199254740992"
    by (rule real_less_lsqrt) (simp_all add: power2_eq_square)
  have a: "6369051672525773 - 1 / 2 < sqrt 2 * 4503599627370496" using lo by simp
  have b: "sqrt 2 * 4503599627370496 < 6369051672525773 + 1 / 2" using hi by simp
  have c: "sqrt 2 / 2 powi (0 - 52) = sqrt 2 * 4503599627370496" by simp
  have "fl (sqrt 2) = Num (of_int 6369051672525773 * 2 powi (0 - 52))"
  proof (rule fl_eval)
    show "2 powi 0 \<le> \<bar>sqrt 2\<bar>" by simp
    show "\<bar>sqrt 2\<bar> < 2 powi (0 + 1)" using hi by simp
    show "round_even (sqrt 2 / 2 powi (0 - 52)) = 6369051672525773"
      using a b c by (intro round_even_near) linarith
  qed simp_all
  then show ?thesis by (simp add: dbl_sqrt_def)
qed

lemma dbl_sqrt_2:
  "dbl_sqrt (Num 3) = Num (3900231685776981 / 2251799813685248)"
proof -
  have lo: "15600926743107923 / 9007199254740992 < sqrt 3"
    by (rule real_less_rsqrt) (simp add: power2_eq_square)
  have hi: "sqrt 3 < 15600926743107925 / 9007199254740992"
    by (rule real_less_lsqrt) (simp_all add: power2_eq_square)
  have a: "7800463371553962 - 1 / 2 < sqrt 3 * 4503599627370496" using lo by simp
  have b: "sqrt 3 * 4503599627370496 < 7800463371553962 + 1 / 2" using hi by simp
  have c: "sqrt 3 / 2 powi (0 - 52) = sqrt 3 * 4503599627370496" by simp
  have "fl (sqrt 3) = Num (of_int 7800463371553962 * 2 powi (0 - 52))"
  proof (rule fl_eval)
    show "2 powi 0 \<le> \<bar>sqrt 3\<bar>" by simp
    show "\<bar>sqrt 3\<bar> < 2 powi (0 + 1)" using hi by simp
    show "round_even (sqrt 3 / 2 powi (0 - 52)) = 7800463371553962"
      using a b c by (intro round_even_near) linarith
  qed simp_all
  then show ?thesis by (simp add: dbl_sqrt_def)
qed

lemma dbl_sqrt_3:
  "dbl_sqrt (Num 4) = Num 2"
proof -
  have "fl (2) = Num (of_int 4503599627370496 * 2 powi (1 - 52))"
  proof (rule fl_eval)
    show "round_even ((2) / 2 powi (1 - 52)) = 4503599627370496"
      by (rule round_even_near) (simp add: abs_less_iff)
  qed simp_all
  then show ?thesis by (simp add: dbl_sqrt_def)
qed

lemmas dbl_evals =
  dbl_add_1 dbl_add_2 dbl_add_3 dbl_add_4 dbl_add_5 dbl_add_6
  dbl_add_7 dbl_add_8 dbl_add_9 dbl_add_10 dbl_add_11 dbl_add_12
  dbl_add_13 dbl_add_14 dbl_add_15 dbl_add_16 dbl_add_17 dbl_div_1
  dbl_div_2 dbl_div_3 dbl_div_4 dbl_div_5 dbl_div_6 dbl_div_7
  dbl_div_8 dbl_div_9 dbl_div_10 dbl_div_11 dbl_div_12 dbl_div_13
  dbl_div_14 dbl_div_15 dbl_mul_1 dbl_mul_2 dbl_mul_3 dbl_mul_4
  dbl_mul_5 dbl_mul_6 dbl_mul_7 dbl_mul_8 dbl_mul_9 dbl_mul_10
  dbl_mul_11 dbl_sqrt_1 dbl_sqrt_2 dbl_sqrt_3

section \<open>Scores and the best match\<close>

lemma set_own_keys_order: "set (own_keys_order props) = set props"
  by (auto simp add: own_keys_order_def)

lemma length_own_keys_order: "length (own_keys_order props) = length props"
proof -
  have "length (own_keys_order props)
        = length (filter (\<lambda>p. is_array_index (fst p)) props)
          + length (filter (\<lambda>p. \<not> is_array_index (fst p)) props)"
    by (simp add: own_keys_order_def)
  then show ?thesis using sum_length_filter_compl[of "\<lambda>p. is_array_index (fst p)" props] by simp
qed

text \<open>
  When every score is a number, the loop of \<^verbatim>\<open>detectChord\<close> ends at the first
  entry of maximal score: the invariant below holds after each iteration.
\<close>

lemma detectChord_fold_argmax:
  assumes "\<forall>e\<in>set es. \<exists>r. cosineSimilarity v (snd e) = Num r" and "es \<noteq> []"
  shows "\<exists>k<length es.
           fold (detectChord_step v) es (None, NInf)
             = (Some (fst (es ! k)), cosineSimilarity v (snd (es ! k)))
           \<and> (\<forall>j<length es. js_ge (cosineSimilarity v (snd (es ! k))) (cosineSimilarity v (snd (es ! j))))
           \<and> (\<forall>j<k. js_gt (cosineSimilarity v (snd (es ! k))) (cosineSimilarity v (snd (es ! j))))"
  using assms
proof (induction es rule: rev_induct)
  case Nil
  then show ?case by simp
next
  case (snoc e es)
  let ?sc = "\<lambda>x. cosineSimilarity v (snd x)"
  obtain r where r: "?sc e = Num r" using snoc.prems(1) by auto
  show ?case
  proof (cases "es = []")
    case True
    have "fold (detectChord_step v) (es @ [e]) (None, NInf) = (Some (fst e), ?sc e)"
      using True by (simp add: detectChord_step_def r js_gt_def)
    then show ?thesis using True by (simp add: r)
  next
    case False
    have nums: "\<forall>e\<in>set es. \<exists>r. ?sc e = Num r" using snoc.prems(1) by simp
    from snoc.IH[OF nums False] obtain k where
      k: "k < length es"
      and st: "fold (detectChord_step v) es (None, NInf) = (Some (fst (es ! k)), ?sc (es ! k))"
      and ge: "\<forall>j<length es. js_ge (?sc (es ! k)) (?sc (es ! j))"
      and gt: "\<forall>j<k. js_gt (?sc (es ! k)) (?sc (es ! j))"
      by blast
    have "es ! k \<in> set es" using k by simp
    then obtain rk where rk: "?sc (es ! k) = Num rk" using nums by blast
    have num_j: "\<exists>rj. ?sc (es ! j) = Num rj \<and> rj \<le> rk" if jl: "j < length es" for j
    proof -
      have "es ! j \<in> set es" using jl by simp
      then obtain rj where rj: "?sc (es ! j) = Num rj" using nums by blast
      have "js_ge (?sc (es ! k)) (?sc (es ! j))" using ge jl by blast
      then have "rj \<le> rk" by (simp add: rj rk)
      then show ?thesis using rj by blast
    qed
    show ?thesis
    proof (cases "rk < r")
      case True
      have state: "fold (detectChord_step v) (es @ [e]) (None, NInf) = (Some (fst e), ?sc e)"
        using True by (simp add: st detectChord_step_def r rk js_gt_def)
      have all_gt: "js_gt (?sc e) (?sc (es ! j))" if "j < length es" for j
        using num_j[OF that] True by (auto simp add: r js_gt_def)
      have "length es < length (es @ [e])" by simp
      moreover have "fold (detectChord_step v) (es @ [e]) (None, NInf)
          = (Some (fst ((es @ [e]) ! length es)), ?sc ((es @ [e]) ! length es))"
        using state by simp
      moreover have "\<forall>j<length (es @ [e]).
          js_ge (?sc ((es @ [e]) ! length es)) (?sc ((es @ [e]) ! j))"
      proof (intro allI impI)
        fix j assume "j < length (es @ [e])"
        then consider "j < length es" | "j = length es" by fastforce
        then show "js_ge (?sc ((es @ [e]) ! length es)) (?sc ((es @ [e]) ! j))"
        proof cases
          case 1
          then show ?thesis using num_j[OF 1] True by (auto simp add: nth_append r)
        next
          case 2
          then show ?thesis by (simp add: r)
        qed
      qed
      moreover have "\<forall>j<length es. js_gt (?sc ((es @ [e]) ! length es)) (?sc ((es @ [e]) ! j))"
        using all_gt by (simp add: nth_append)
      ultimately show ?thesis by blast
    next
      case False
      have state: "fold (detectChord_step v) (es @ [e]) (None, NInf)
          = (Some (fst ((es @ [e]) ! k)), ?sc ((es @ [e]) ! k))"
        using False k by (simp add: st detectChord_step_def r rk js_gt_def nth_append)
      have "\<forall>j<length (es @ [e]). js_ge (?sc ((es @ [e]) ! k)) (?sc ((es @ [e]) ! j))"
      proof (intro allI impI)
        fix j assume "j < length (es @ [e])"
        then consider "j < length es" | "j = length es" by fastforce
        then show "js_ge (?sc ((es @ [e]) ! k)) (?sc ((es @ [e]) ! j))"
        proof cases
          case 1
          then show ?thesis using ge k by (simp add: nth_append)
        next
          case 2
          then show ?thesis using False k by (simp add: nth_append r rk)
        qed
      qed
      moreover have "\<forall>j<k. js_gt (?sc ((es @ [e]) ! k)) (?sc ((es @ [e]) ! j))"
        using gt k by (simp add: nth_append)
      moreover have "k < length (es @ [e])" using k by simp
      ultimately show ?thesis using state by blast
    qed
  qed
qed

lemma detectChord_argmax_scores:
  assumes "templates \<noteq> []"
    and "\<forall>e\<in>set templates. \<exists>r. cosineSimilarity v (snd e) = Num r"
  shows "\<exists>k<length (own_keys_order templates).
          detectChord v templates = Some (fst (own_keys_order templates ! k))
          \<and> (\<forall>j<length (own_keys_order templates).
                js_ge (cosineSimilarity v (snd (own_keys_order templates ! k)))
                      (cosineSimilarity v (snd (own_keys_order templates ! j))))
          \<and> (\<forall>j<k. js_gt (cosineSimilarity v (snd (own_keys_order templates ! k)))
                           (cosineSimilarity v (snd (own_keys_order templates ! j))))"
proof -
  let ?es = "own_keys_order templates"
  have ne: "?es \<noteq> []" using assms(1) length_own_keys_order[of templates] by auto
  have nums: "\<forall>e\<in>set ?es. \<exists>r. cosineSimilarity v (snd e) = Num r"
    using assms(2) by (simp add: set_own_keys_order)
  from detectChord_fold_argmax[OF nums ne] obtain k where
    "k < length ?es"
    "fold (detectChord_step v) ?es (None, NInf)
       = (Some (fst (?es ! k)), cosineSimilarity v (snd (?es ! k)))"
    "\<forall>j<length ?es. js_ge (cosineSimilarity v (snd (?es ! k)))
                              (cosineSimilarity v (snd (?es ! j)))"
    "\<forall>j<k. js_gt (cosineSimilarity v (snd (?es ! k)))
                     (cosineSimilarity v (snd (?es ! j)))"
    by blast
  then show ?thesis
    unfolding detectChord_def detectChord_loop_def by (intro exI[of _ k]) simp
qed

text \<open>
  The one loop of \<^verbatim>\<open>cosineSimilarity\<close> accumulates three rounded sums of products:
  of \<open>a\<close> with \<open>b\<close>, of \<open>a\<close> with itself and of \<open>b\<close> with itself.
\<close>

lemma cosine_fold_take:
  assumes "k \<le> length a" and "length a = length b"
  shows "fold (\<lambda>i (dot, normA, normB).
                  (dbl_add dot (dbl_mul (a ! i) (js_index b i)),
                   dbl_add normA (dbl_mul (a ! i) (a ! i)),
                   dbl_add normB (dbl_mul (js_index b i) (js_index b i))))
            [0..<k] (d, x, y)
         = (fold (\<lambda>(x, y) s. dbl_add s (dbl_mul x y)) (zip (take k a) (take k b)) d,
            fold (\<lambda>(x, y) s. dbl_add s (dbl_mul x y)) (zip (take k a) (take k a)) x,
            fold (\<lambda>(x, y) s. dbl_add s (dbl_mul x y)) (zip (take k b) (take k b)) y)"
  using assms(1)
proof (induction k)
  case 0
  then show ?case by simp
next
  case (Suc k)
  have ka: "k < length a" and kb: "k < length b" using Suc.prems assms(2) by simp_all
  have ta: "take (Suc k) a = take k a @ [a ! k]" using ka by (rule take_Suc_conv_app_nth)
  have tb: "take (Suc k) b = take k b @ [b ! k]" using kb by (rule take_Suc_conv_app_nth)
  have l: "length (take k a) = length (take k b)" using ka kb by simp
  let ?F = "\<lambda>i (dot, normA, normB).
                  (dbl_add dot (dbl_mul (a ! i) (js_index b i)),
                   dbl_add normA (dbl_mul (a ! i) (a ! i)),
                   dbl_add normB (dbl_mul (js_index b i) (js_index b i)))"
  let ?g = "\<lambda>(x, y) s. dbl_add s (dbl_mul x y)"
  have ih: "fold ?F [0..<k] (d, x, y)
         = (fold ?g (zip (take k a) (take k b)) d,
            fold ?g (zip (take k a) (take k a)) x,
            fold ?g (zip (take k b) (take k b)) y)"
    using Suc.IH ka by simp
  have "fold ?F [0..<Suc k] (d, x, y) = ?F k (fold ?F [0..<k] (d, x, y))" by simp
  also have "\<dots> = ?F k (fold ?g (zip (take k a) (take k b)) d,
                         fold ?g (zip (take k a) (take k a)) x,
                         fold ?g (zip (take k b) (take k b)) y)"
    by (simp only: ih)
  also have "\<dots> = (fold ?g (zip (take (Suc k) a) (take (Suc k) b)) d,
                     fold ?g (zip (take (Suc k) a) (take (Suc k) a)) x,
                     fold ?g (zip (take (Suc k) b) (take (Suc k) b)) y)"
    unfolding ta tb using l kb by (simp add: js_index_def)
  finally show ?case .
qed

lemma cosineSimilarity_dot_rounded:
  assumes "length a = length b"
  shows "cosineSimilarity a b
         = dbl_div (dot_rounded a b) (dbl_mul (dbl_sqrt (dot_rounded a a)) (dbl_sqrt (dot_rounded b b)))"
proof -
  have "length a \<le> length a" by simp
  from cosine_fold_take[OF this assms, of "Num 0" "Num 0" "Num 0"] show ?thesis
    using assms by (simp add: cosineSimilarity_def dot_rounded_def)
qed

text \<open>
  The library on two vectors. No key of the library is an array index, so its
  enumeration order is its creation order. The scores below are the values the
  program computes: on the vector of C major, \<open>C:maj\<close> scores \<open>1 + 2^(-52)\<close> and
  \<open>C:7\<close> before it \<open>0.8660254037844387\<close>; on the second vector \<open>G#:min\<close> scores
  \<open>0.4082482904638631\<close> and \<open>G#:maj\<close> before it \<open>0.40824829046386296\<close>.
\<close>

lemma own_keys_order_no_index:
  "\<forall>p\<in>set props. \<not> is_array_index (fst p) \<Longrightarrow> own_keys_order props = props"
  by (simp add: own_keys_order_def)

lemma chordTemplates_no_index: "list_all (\<lambda>p. \<not> is_array_index (fst p)) generateChordTemplates"
  unfolding generateChordTemplates_eq
  by (simp add: is_array_index_def digit_of_def)

lemma own_keys_order_chordTemplates:
  "own_keys_order generateChordTemplates = generateChordTemplates"
  using chordTemplates_no_index
  by (intro own_keys_order_no_index) (simp add: list_all_iff)

text \<open>
  The loop of \<^verbatim>\<open>detectChord\<close> only looks at the key and the score of each entry.
\<close>

lemma detectChord_fold_scores:
  "fold (detectChord_step v) es best
   = fold (\<lambda>(k, s) b. if js_gt s (snd b) then (Some k, s) else b)
       (zip (map fst es) (map (\<lambda>e. cosineSimilarity v (snd e)) es)) best"
  by (induction es arbitrary: best) (simp_all add: detectChord_step_def)

lemma scores_numbers:
  "map f es = map Num rs \<Longrightarrow> \<forall>e\<in>set es. \<exists>r. f e = Num r"
proof (induction es arbitrary: rs)
  case Nil
  then show ?case by simp
next
  case (Cons e es)
  then obtain r rs' where rs: "rs = r # rs'" by (cases rs) auto
  then have "f e = Num r" and "map f es = map Num rs'" using Cons.prems by simp_all
  then show ?case using Cons.IH by auto
qed

lemma chordTemplates_names:
  "map fst generateChordTemplates =
      [''C:7'', ''C:maj'', ''C:min'', ''C:dim'', ''C:aug'', ''C#:7'', ''C#:maj'',
       ''C#:min'', ''C#:dim'', ''C#:aug'', ''D:7'', ''D:maj'', ''D:min'', ''D:dim'',
       ''D:aug'', ''D#:7'', ''D#:maj'', ''D#:min'', ''D#:dim'', ''D#:aug'', ''E:7'',
       ''E:maj'', ''E:min'', ''E:dim'', ''E:aug'', ''F:7'', ''F:maj'', ''F:min'', ''F:dim'',
       ''F:aug'', ''F#:7'', ''F#:maj'', ''F#:min'', ''F#:dim'', ''F#:aug'', ''G:7'',
       ''G:maj'', ''G:min'', ''G:dim'', ''G:aug'', ''G#:7'', ''G#:maj'', ''G#:min'',
       ''G#:dim'', ''G#:aug'', ''A:7'', ''A:maj'', ''A:min'', ''A:dim'', ''A:aug'',
       ''A#:7'', ''A#:maj'', ''A#:min'', ''A#:dim'', ''A#:aug'', ''B:7'', ''B:maj'',
       ''B:min'', ''B:dim'', ''B:aug'']"
  unfolding generateChordTemplates_eq by simp

lemma scores_cmaj:
  "map (\<lambda>e. cosineSimilarity (map Num [1, 0, 0, 0, 1, 0, 0, 1, 0, 0, 0, 0]) (snd e))
     generateChordTemplates
   = map Num
       [7800463371553963 / 9007199254740992, 4503599627370497 / 4503599627370496,
        3002399751580331 / 4503599627370496, 3002399751580331 / 9007199254740992,
        3002399751580331 / 4503599627370496, 0, 0, 3002399751580331 / 9007199254740992,
        3002399751580331 / 4503599627370496, 0, 5200308914369309 / 18014398509481984, 0, 0,
        0, 0, 5200308914369309 / 18014398509481984, 3002399751580331 / 9007199254740992, 0,
        0, 3002399751580331 / 9007199254740992, 5200308914369309 / 18014398509481984,
        3002399751580331 / 9007199254740992, 3002399751580331 / 4503599627370496,
        3002399751580331 / 4503599627370496, 3002399751580331 / 4503599627370496,
        5200308914369309 / 18014398509481984, 3002399751580331 / 9007199254740992,
        3002399751580331 / 9007199254740992, 0, 0, 5200308914369309 / 18014398509481984, 0,
        0, 3002399751580331 / 9007199254740992, 0, 5200308914369309 / 18014398509481984,
        3002399751580331 / 9007199254740992, 3002399751580331 / 9007199254740992,
        3002399751580331 / 9007199254740992, 3002399751580331 / 9007199254740992,
        5200308914369309 / 18014398509481984, 3002399751580331 / 9007199254740992, 0, 0,
        3002399751580331 / 4503599627370496, 5200308914369309 / 9007199254740992,
        3002399751580331 / 9007199254740992, 3002399751580331 / 4503599627370496,
        3002399751580331 / 9007199254740992, 0, 0, 0, 0, 3002399751580331 / 9007199254740992,
        0, 0, 0, 0, 0, 3002399751580331 / 9007199254740992]"
  unfolding generateChordTemplates_eq
  by (simp add: cosineSimilarity_def upt12 js_index_def dbl_evals)

lemma scores_tie:
  "map (\<lambda>e. cosineSimilarity (map Num [1, 0, 0, 1 / 9007199254740992, 0, 0, 0, 0, 1 / 9007199254740992, 0, 0, 1]) (snd e))
     generateChordTemplates
   = map Num
       [1592262918131443 / 4503599627370496, 7354347395230781 / 18014398509481984,
        7354347395230781 / 18014398509481984, 7354347395230781 / 18014398509481984,
        7354347395230781 / 18014398509481984, 1592262918131443 / 4503599627370496,
        7354347395230781 / 162259276829213363391578010288128,
        7354347395230781 / 162259276829213363391578010288128, 0, 0,
        1592262918131443 / 4503599627370496, 0, 0,
        7354347395230781 / 162259276829213363391578010288128, 0,
        1592262918131443 / 40564819207303340847894502572032,
        7354347395230781 / 162259276829213363391578010288128,
        7354347395230781 / 162259276829213363391578010288128,
        7354347395230781 / 162259276829213363391578010288128,
        7354347395230781 / 18014398509481984, 1592262918131443 / 4503599627370496,
        7354347395230781 / 18014398509481984, 7354347395230781 / 18014398509481984, 0,
        7354347395230781 / 18014398509481984, 1592262918131443 / 4503599627370496,
        7354347395230781 / 18014398509481984, 7354347395230781 / 18014398509481984,
        7354347395230781 / 18014398509481984, 0, 0, 0, 0,
        7354347395230781 / 18014398509481984, 0, 1592262918131443 / 4503599627370496,
        7354347395230781 / 18014398509481984, 0, 0, 7354347395230781 / 18014398509481984,
        1592262918131443 / 4503599627370496, 7354347395230781 / 18014398509481984,
        7354347395230783 / 18014398509481984, 7354347395230781 / 18014398509481984,
        7354347395230781 / 18014398509481984, 0, 0, 7354347395230781 / 18014398509481984,
        7354347395230781 / 18014398509481984, 0,
        1592262918131443 / 40564819207303340847894502572032, 0, 0, 0, 0,
        1592262918131443 / 4503599627370496, 7354347395230781 / 18014398509481984,
        7354347395230781 / 18014398509481984, 7354347395230781 / 18014398509481984,
        7354347395230781 / 18014398509481984]"
  unfolding generateChordTemplates_eq
  by (simp add: cosineSimilarity_def upt12 js_index_def dbl_evals)

lemma detectChord_loop_cmaj:
  "detectChord_loop (map Num [1, 0, 0, 0, 1, 0, 0, 1, 0, 0, 0, 0]) chordTemplates
   = (Some ''C:maj'', Num (4503599627370497 / 4503599627370496))"
  unfolding detectChord_loop_def chordTemplates_def own_keys_order_chordTemplates
    detectChord_fold_scores scores_cmaj chordTemplates_names
  by (simp add: js_gt_def)

lemma detectChord_loop_tie:
  "detectChord_loop (map Num [1, 0, 0, 1 / 9007199254740992, 0, 0, 0, 0, 1 / 9007199254740992, 0, 0, 1])
     chordTemplates
   = (Some ''G#:min'', Num (7354347395230783 / 18014398509481984))"
  unfolding detectChord_loop_def chordTemplates_def own_keys_order_chordTemplates
    detectChord_fold_scores scores_tie chordTemplates_names
  by (simp add: js_gt_def)

lemma cmaj_self:
  "cosineSimilarity (map Num [1, 0, 0, 0, 1, 0, 0, 1, 0, 0, 0, 0])
     (map Num [1, 0, 0, 0, 1, 0, 0, 1, 0, 0, 0, 0])
   = Num (4503599627370497 / 4503599627370496)"
  by (simp add: cosineSimilarity_def upt12 js_index_def dbl_evals)

lemma cmaj_c7:
  "cosineSimilarity (map Num [1, 0, 0, 0, 1, 0, 0, 1, 0, 0, 0, 0])
     (map Num [1, 0, 0, 0, 1, 0, 0, 1, 0, 0, 1, 0])
   = Num (7800463371553963 / 9007199254740992)"
  by (simp add: cosineSimilarity_def upt12 js_index_def dbl_evals)

lemma chordTemplates_gsharp:
  "own_keys_order chordTemplates ! 41 = (''G#:maj'', map Num [1, 0, 0, 1, 0, 0, 0, 0, 1, 0, 0, 0])
   \<and> own_keys_order chordTemplates ! 42 = (''G#:min'', map Num [0, 0, 0, 1, 0, 0, 0, 0, 1, 0, 0, 1])"
  unfolding chordTemplates_def own_keys_order_chordTemplates
  by (simp add: generateChordTemplates_eq)

lemma cosine_spec_tie:
  "cosine_spec [1, 0, 0, 1 / 9007199254740992, 0, 0, 0, 0, 1 / 9007199254740992, 0, 0, 1]
     [1, 0, 0, 1, 0, 0, 0, 0, 1, 0, 0, 0]
   = cosine_spec [1, 0, 0, 1 / 9007199254740992, 0, 0, 0, 0, 1 / 9007199254740992, 0, 0, 1]
     [0, 0, 0, 1, 0, 0, 0, 0, 1, 0, 0, 1]"
  by (simp add: cosine_spec_def)

lemma chordTemplates_cmaj_only:
  "list_all (\<lambda>e. snd e = map Num [1, 0, 0, 0, 1, 0, 0, 1, 0, 0, 0, 0] \<longrightarrow> fst e = ''C:maj'')
     generateChordTemplates"
  unfolding generateChordTemplates_eq by simp

lemma chordTemplates_lookup_cmaj:
  "map_of generateChordTemplates ''C:maj'' = Some (map Num [1, 0, 0, 0, 1, 0, 0, 1, 0, 0, 0, 0])"
  unfolding generateChordTemplates_eq by simp

section \<open>The frame accumulator\<close>

lemma fold_total_samples: "fold (\<lambda>arr sum. sum + length arr) acc n = n + length (concat acc)"
  by (induction acc arbitrary: n) simp_all

lemma analyse_frame:
  "frame_of (fst (analyse st buffer now)) = Some buffer
   \<and> sampleAccumulator (snd (analyse st buffer now)) = sampleAccumulator st"
  by (simp add: analyse_def smooth_def Let_def split: option.splits)

lemma onmessage_below:
  assumes "length (concat (sampleAccumulator st)) + length data < BUFFER_SIZE"
  shows "onmessage st data now = (NoFrame, st\<lparr>sampleAccumulator := sampleAccumulator st @ [data]\<rparr>)"
  using assms by (simp add: onmessage_def Let_def fold_total_samples)

lemma onmessage_reached:
  assumes "BUFFER_SIZE \<le> length (concat (sampleAccumulator st)) + length data"
  shows "onmessage st data now =
           analyse (st\<lparr>sampleAccumulator := []\<rparr>)
             (take BUFFER_SIZE (concat (sampleAccumulator st @ [data]))) now"
  using assms by (simp add: onmessage_def Let_def fold_total_samples)

lemma deliver_below:
  "length (concat (sampleAccumulator st)) + length (concat (map fst chunks)) < BUFFER_SIZE \<Longrightarrow>
   deliver st chunks =
     (replicate (length chunks) NoFrame,
      st\<lparr>sampleAccumulator := sampleAccumulator st @ map fst chunks\<rparr>)"
proof (induction chunks arbitrary: st)
  case Nil
  then show ?case by simp
next
  case (Cons c chunks)
  obtain data now where c: "c = (data, now)" by (cases c)
  let ?st = "st\<lparr>sampleAccumulator := sampleAccumulator st @ [data]\<rparr>"
  have step: "onmessage st data now = (NoFrame, ?st)"
    using Cons.prems c by (intro onmessage_below) simp
  have "length (concat (sampleAccumulator ?st)) + length (concat (map fst chunks)) < BUFFER_SIZE"
    using Cons.prems c by simp
  from Cons.IH[OF this] show ?case by (simp add: c step)
qed

lemma deliver_append:
  "deliver st (xs @ ys) =
     (case deliver st xs of (outs, st') \<Rightarrow>
        (case deliver st' ys of (outs', st'') \<Rightarrow> (outs @ outs', st'')))"
proof (induction xs arbitrary: st)
  case Nil
  show ?case by (simp split: prod.splits)
next
  case (Cons x xs)
  obtain data now where x: "x = (data, now)" by (cases x)
  obtain out st1 where step: "onmessage st data now = (out, st1)" by (cases "onmessage st data now")
  show ?case using Cons.IH[of st1] by (simp add: x step split: prod.splits)
qed

lemma length_concat_const:
  "\<forall>c\<in>set cs. length c = n \<Longrightarrow> length (concat cs) = n * length cs"
  by (induction cs) simp_all

section \<open>Smoothing, the loudness gate and the stored result\<close>








lemma analyse_not_flushed:
  assumes "flushed_of (fst (analyse st buffer now)) = None"
  shows "lastChordResult (snd (analyse st buffer now)) = lastChordResult st
         \<and> lastNotesResult (snd (analyse st buffer now)) = lastNotesResult st"
  using assms
  by (auto simp add: analyse_def smooth_def Let_def split: option.splits if_splits)

lemma onmessage_cases:
  "onmessage st data now = (NoFrame, st\<lparr>sampleAccumulator := sampleAccumulator st @ [data]\<rparr>)
   \<or> (\<exists>buffer. onmessage st data now = analyse (st\<lparr>sampleAccumulator := []\<rparr>) buffer now)"
  by (auto simp add: onmessage_def Let_def)

lemma onmessage_not_flushed:
  assumes "flushed_of (fst (onmessage st data now)) = None"
  shows "lastChordResult (snd (onmessage st data now)) = lastChordResult st
         \<and> lastNotesResult (snd (onmessage st data now)) = lastNotesResult st"
proof -
  from onmessage_cases[of st data now] show ?thesis
  proof
    assume "onmessage st data now = (NoFrame, st\<lparr>sampleAccumulator := sampleAccumulator st @ [data]\<rparr>)"
    then show ?thesis by simp
  next
    assume "\<exists>buffer. onmessage st data now = analyse (st\<lparr>sampleAccumulator := []\<rparr>) buffer now"
    then obtain buffer where
      eq: "onmessage st data now = analyse (st\<lparr>sampleAccumulator := []\<rparr>) buffer now"
      by blast
    show ?thesis
      using analyse_not_flushed[of "st\<lparr>sampleAccumulator := []\<rparr>" buffer now] assms
      unfolding eq by simp
  qed
qed


lemma deliver_not_flushed:
  "\<forall>out\<in>set (fst (deliver st chunks)). flushed_of out = None \<Longrightarrow>
   lastChordResult (snd (deliver st chunks)) = lastChordResult st
   \<and> lastNotesResult (snd (deliver st chunks)) = lastNotesResult st"
proof (induction chunks arbitrary: st)
  case Nil
  then show ?case by simp
next
  case (Cons c chunks)
  obtain data now where c: "c = (data, now)" by (cases c)
  obtain out st1 where step: "onmessage st data now = (out, st1)"
    by (cases "onmessage st data now")
  obtain outs st2 where rest: "deliver st1 chunks = (outs, st2)"
    by (cases "deliver st1 chunks")
  have all: "flushed_of out = None" "\<forall>x\<in>set outs. flushed_of x = None"
    using Cons.prems by (simp_all add: c step rest)
  have "lastChordResult st1 = lastChordResult st \<and> lastNotesResult st1 = lastNotesResult st"
    using onmessage_not_flushed[of st data now] all(1) by (simp add: step)
  moreover have "lastChordResult st2 = lastChordResult st1 \<and> lastNotesResult st2 = lastNotesResult st1"
    using Cons.IH[of st1] all(2) by (simp add: rest)
  ultimately show ?case by (simp add: c step rest)
qed

section \<open>Ranking of the notes\<close>

lemma js_insert_map:
  "js_insert after (g x) (map g ys) = map g (js_insert (\<lambda>a b. after (g a) (g b)) x ys)"
  by (induction ys) simp_all

lemma js_sort_map:
  "js_sort after (map g xs) = map g (js_sort (\<lambda>a b. after (g a) (g b)) xs)"
  by (induction xs) (simp_all add: js_insert_map)

lemma set_js_insert: "set (js_insert after x ys) = insert x (set ys)"
  by (induction ys) auto

lemma set_js_sort: "set (js_sort after xs) = set xs"
  by (induction xs) (simp_all add: set_js_insert)

lemma distinct_js_insert: "distinct (js_insert after x ys) = (x \<notin> set ys \<and> distinct ys)"
  by (induction ys) (auto simp add: set_js_insert)

lemma distinct_js_sort: "distinct (js_sort after xs) = distinct xs"
  by (induction xs) (simp_all add: distinct_js_insert set_js_sort)

lemma sorted_js_insert:
  assumes "sorted_wrt (ranks_before rs) ys" and "\<forall>y\<in>set ys. x < y"
  shows "sorted_wrt (ranks_before rs) (js_insert (\<lambda>i j. rs ! i < rs ! j) x ys)"
  using assms
proof (induction ys)
  case Nil
  then show ?case by simp
next
  case (Cons y ys)
  show ?case
  proof (cases "rs ! x < rs ! y")
    case True
    have "sorted_wrt (ranks_before rs) (js_insert (\<lambda>i j. rs ! i < rs ! j) x ys)"
      using Cons by simp
    moreover have "\<forall>z\<in>set (js_insert (\<lambda>i j. rs ! i < rs ! j) x ys). ranks_before rs y z"
      using Cons.prems(1) True by (auto simp add: set_js_insert ranks_before_def)
    ultimately show ?thesis using True by simp
  next
    case False
    have xy: "ranks_before rs x y" using False Cons.prems(2) by (auto simp add: ranks_before_def)
    have "ranks_before rs x z" if "z \<in> set ys" for z
    proof -
      have "ranks_before rs y z" using Cons.prems(1) that by simp
      then have "rs ! z \<le> rs ! y" by (auto simp add: ranks_before_def)
      moreover have "x < z" using Cons.prems(2) that by simp
      ultimately show ?thesis using False by (auto simp add: ranks_before_def)
    qed
    then show ?thesis using False xy Cons.prems(1) by simp
  qed
qed

lemma sorted_js_sort:
  "sorted_wrt (<) xs \<Longrightarrow> sorted_wrt (ranks_before rs) (js_sort (\<lambda>i j. rs ! i < rs ! j) xs)"
proof (induction xs)
  case Nil
  then show ?case by simp
next
  case (Cons x xs)
  have "sorted_wrt (ranks_before rs) (js_sort (\<lambda>i j. rs ! i < rs ! j) xs)"
    using Cons by simp
  moreover have "\<forall>y\<in>set (js_sort (\<lambda>i j. rs ! i < rs ! j) xs). x < y"
    using Cons.prems by (simp add: set_js_sort)
  ultimately show ?case by (simp add: sorted_js_insert)
qed

lemma notes_after_Num: "notes_after (a, Num x) (b, Num y) = (x < y)"
  by (simp add: notes_after_def js_sub_def js_gt_def)

lemma detectNotes_indices:
  "detectNotes (map Num rs) (Num t)
     = map (\<lambda>i. (if i < length noteNames then Some (noteNames ! i) else None, Num (rs ! i)))
         (js_sort (\<lambda>i j. rs ! i < rs ! j) (filter (\<lambda>i. t \<le> rs ! i) [0..<length rs]))"
proof -
  let ?g = "\<lambda>i. (if i < length noteNames then Some (noteNames ! i) else None, Num (rs ! i))"
  have m: "map (\<lambda>i. (if i < length noteNames then Some (noteNames ! i) else None, map Num rs ! i))
             [0..<length (map Num rs)] = map ?g [0..<length rs]"
    by simp
  have f: "filter (\<lambda>n. js_ge (snd n) (Num t)) (map ?g [0..<length rs])
             = map ?g (filter (\<lambda>i. t \<le> rs ! i) [0..<length rs])"
    by (simp add: filter_map comp_def)
  have s: "js_sort notes_after (map ?g xs) = map ?g (js_sort (\<lambda>i j. rs ! i < rs ! j) xs)" for xs
    by (simp add: js_sort_map notes_after_Num)
  show ?thesis unfolding detectNotes_def Let_def m f s ..
qed

section \<open>The claims\<close>

text \<open>
  C1, as the program has it: for an all-zero vector \<^verbatim>\<open>cosineSimilarity\<close> returns NaN,
  against every second vector. NaN is not a score: it is neither greater than, nor
  at least, nor less than any value, itself included. \<^verbatim>\<open>detectChord\<close> still
  returns, and it picks no label: its result is \<^verbatim>\<open>null\<close>.
\<close>

theorem cosineSimilarity_all_zero_NaN:
  "cosineSimilarity (replicate n (Num 0)) b = NaN
   \<and> \<not> js_gt (cosineSimilarity (replicate n (Num 0)) b) x
   \<and> \<not> js_ge (cosineSimilarity (replicate n (Num 0)) b) x
   \<and> \<not> js_lt (cosineSimilarity (replicate n (Num 0)) b) x
   \<and> detectChord (replicate n (Num 0)) templates = None"
  by (simp add: cosineSimilarity_zero js_gt_NaN detectChord_zero)

text \<open>
  C1 as the specification words it, that the similarity of an all-zero vector is a
  defined sentinel score, fails: against the template of C major the result is
  NaN, which does not even compare as at least itself.
\<close>

theorem cosineSimilarity_sentinel_counterexample:
  "cosineSimilarity (replicate 12 (Num 0)) (generateChordTemplate 0 [0, 4, 7]) = NaN
   \<and> \<not> js_ge (cosineSimilarity (replicate 12 (Num 0)) (generateChordTemplate 0 [0, 4, 7]))
            (cosineSimilarity (replicate 12 (Num 0)) (generateChordTemplate 0 [0, 4, 7]))"
  by (simp add: cosineSimilarity_zero)

text \<open>
  C2, at an input where the program departs from it: rotating the vector
  \<open>[1, ..., 12]\<close> by 13 semitones and then by \<open>-13\<close> does not give the vector back.
  In the second rotation \<^verbatim>\<open>(i + shift + len) % len\<close> is \<open>-1\<close> for \<open>i = 0\<close>, since
  \<^verbatim>\<open>%\<close> takes the sign of the dividend: the assignment creates the property \<open>-1\<close>
  and index 11 of the result stays a hole.
\<close>

theorem shiftHPCP_roundtrip_fails:
  "shiftHPCP (shiftHPCP
      [Num 1, Num 2, Num 3, Num 4, Num 5, Num 6, Num 7, Num 8, Num 9, Num 10, Num 11, Num 12] 13) (- 13)
   = [Num 1, Num 2, Num 3, Num 4, Num 5, Num 6, Num 7, Num 8, Num 9, Num 10, Num 11, Undefined]
   \<and> shiftHPCP (shiftHPCP
      [Num 1, Num 2, Num 3, Num 4, Num 5, Num 6, Num 7, Num 8, Num 9, Num 10, Num 11, Num 12] 13) (- 13)
   \<noteq> [Num 1, Num 2, Num 3, Num 4, Num 5, Num 6, Num 7, Num 8, Num 9, Num 10, Num 11, Num 12]"
  by (simp add: shiftHPCP_def upt12 rep12 array_set_def js_rem_def)

text \<open>
  C3: starting from an empty accumulator, 82 chunks of 100 samples each (8200
  samples) give no frame on the first 81 pushes and exactly one frame on the 82nd.
  The frame is the first 8192 samples of the chunks in arrival order, so it has
  length 8192; the accumulator is empty right after, so the 8 samples past the frame
  are dropped and not carried over.
\<close>

theorem frame_accumulator_82_chunks:
  assumes "length chunks = 82"
    and "\<forall>c\<in>set chunks. length (fst c) = 100"
    and "sampleAccumulator st = []"
  shows "\<exists>outs st' frame.
           deliver st chunks = (outs, st')
           \<and> length outs = 82
           \<and> (\<forall>k<81. outs ! k = NoFrame)
           \<and> frame_of (outs ! 81) = Some frame
           \<and> frame = take 8192 (concat (map fst chunks))
           \<and> length frame = 8192
           \<and> length (concat (map fst chunks)) = 8200
           \<and> sampleAccumulator st' = []"
proof -
  let ?xs = "take 81 chunks"
  obtain data now where last: "chunks ! 81 = (data, now)" by (cases "chunks ! 81")
  have "drop 81 chunks = chunks ! 81 # drop (Suc 81) chunks"
    using assms(1) by (intro Cons_nth_drop_Suc[symmetric]) simp
  then have d: "drop 81 chunks = [(data, now)]" using assms(1) last by simp
  have split: "chunks = ?xs @ [(data, now)]"
    using append_take_drop_id[of 81 chunks] d by simp
  have len81: "length ?xs = 81" using assms(1) by simp
  have each: "\<forall>c\<in>set (map fst chunks). length c = 100" using assms(2) by simp
  have total: "length (concat (map fst chunks)) = 8200"
    using length_concat_const[OF each] assms(1) by simp
  have each81: "\<forall>c\<in>set (map fst ?xs). length c = 100"
    using assms(2) by (auto dest: in_set_takeD)
  have total81: "length (concat (map fst ?xs)) = 8100"
    using length_concat_const[OF each81] len81 by simp
  let ?st81 = "st\<lparr>sampleAccumulator := sampleAccumulator st @ map fst ?xs\<rparr>"
  have first: "deliver st ?xs = (replicate (length ?xs) NoFrame, ?st81)"
    by (rule deliver_below) (simp add: assms(3) total81 BUFFER_SIZE_def)
  have mem: "(data, now) \<in> set chunks" using split by (metis in_set_conv_decomp)
  have data: "length data = 100" using assms(2) mem by fastforce
  have "sampleAccumulator ?st81 @ [data] = map fst (?xs @ [(data, now)])"
    by (simp add: assms(3))
  then have acc81: "concat (sampleAccumulator ?st81 @ [data]) = concat (map fst chunks)"
    using split by simp
  let ?frame = "take BUFFER_SIZE (concat (map fst chunks))"
  have pre: "BUFFER_SIZE \<le> length (concat (sampleAccumulator ?st81)) + length data"
    by (simp add: assms(3) total81 data BUFFER_SIZE_def)
  let ?st0 = "st\<lparr>sampleAccumulator := []\<rparr>"
  have norm: "?st81\<lparr>sampleAccumulator := []\<rparr> = ?st0" by simp
  have step: "onmessage ?st81 data now = analyse ?st0 ?frame now"
    using onmessage_reached[OF pre, of now] by (simp only: acc81 norm)
  obtain out st' where an: "analyse ?st0 ?frame now = (out, st')"
    by (cases "analyse ?st0 ?frame now")
  have fr: "frame_of out = Some ?frame" and emp: "sampleAccumulator st' = []"
    using analyse_frame[of ?st0 ?frame now] an by simp_all
  have last_run: "deliver ?st81 [(data, now)] = ([out], st')"
    by (simp only: deliver.simps step an prod.case)
  have "deliver st (?xs @ [(data, now)]) = (replicate 81 NoFrame @ [out], st')"
    by (simp only: deliver_append first last_run prod.case len81)
  then have run: "deliver st chunks = (replicate 81 NoFrame @ [out], st')"
    using split by simp
  have "length ?frame = 8192" using total by (simp add: BUFFER_SIZE_def)
  moreover have "\<forall>k<81. (replicate 81 NoFrame @ [out]) ! k = NoFrame"
    by (simp add: nth_append)
  moreover have "(replicate 81 NoFrame @ [out]) ! 81 = out"
    by (simp add: nth_append)
  ultimately show ?thesis using run fr emp total
    by (auto simp add: BUFFER_SIZE_def)
qed

theorem frame_accumulator_82_chunks_witness:
  "\<exists>outs st' frame.
     deliver (initial_pipeline 0 :: real pipeline) (replicate 82 (replicate 100 0, 0)) = (outs, st')
     \<and> length outs = 82
     \<and> frame_of (outs ! 81) = Some frame
     \<and> length frame = 8192
     \<and> sampleAccumulator st' = []"
proof -
  have a: "length (replicate 82 (replicate 100 (0::real), 0::real)) = 82" by simp
  have b: "\<forall>c\<in>set (replicate 82 (replicate 100 (0::real), 0::real)). length (fst c) = 100" by simp
  have c: "sampleAccumulator (initial_pipeline 0 :: real pipeline) = []"
    by (simp add: initial_pipeline_def)
  from frame_accumulator_82_chunks[OF a b c] show ?thesis by blast
qed




text \<open>
  C5, as the program has it. The similarity is computed in binary64: the three sums
  of products are accumulated with every product and every sum rounded, and the
  quotient \<^verbatim>\<open>dot / (Math.sqrt(normA) * Math.sqrt(normB))\<close> is rounded at each
  operation. Whenever the library is not empty and every computed similarity is a
  number, \<^verbatim>\<open>detectChord\<close> returns the label of a template whose computed similarity
  is at least that of every template and strictly greater than that of every template
  before it in the enumeration order of the library: the first template of maximal
  computed similarity. In particular, on the vector of the template \<open>C:maj\<close>, which no
  other entry of the library equals, it returns \<open>C:maj\<close>; the computed similarity of
  that vector with itself is \<open>1 + 2^(-52) = 1.0000000000000002\<close>, and that of \<open>C:7\<close>,
  the one entry before it, is \<open>0.8660254037844387\<close>.
\<close>

theorem detectChord_first_best_computed:
  "(templates \<noteq> [] \<and> (\<forall>e\<in>set templates. \<exists>r. cosineSimilarity v (snd e) = Num r)
    \<longrightarrow> (\<exists>k<length (own_keys_order templates).
          detectChord v templates = Some (fst (own_keys_order templates ! k))
          \<and> (\<forall>j<length (own_keys_order templates).
                js_ge (cosineSimilarity v (snd (own_keys_order templates ! k)))
                      (cosineSimilarity v (snd (own_keys_order templates ! j))))
          \<and> (\<forall>j<k. js_gt (cosineSimilarity v (snd (own_keys_order templates ! k)))
                           (cosineSimilarity v (snd (own_keys_order templates ! j))))))
   \<and> (length a = length b
        \<longrightarrow> cosineSimilarity a b
            = dbl_div (dot_rounded a b) (dbl_mul (dbl_sqrt (dot_rounded a a)) (dbl_sqrt (dot_rounded b b))))
   \<and> detectChord (map Num [1, 0, 0, 0, 1, 0, 0, 1, 0, 0, 0, 0]) chordTemplates = Some ''C:maj''
   \<and> map_of chordTemplates ''C:maj'' = Some (map Num [1, 0, 0, 0, 1, 0, 0, 1, 0, 0, 0, 0])
   \<and> (\<forall>e\<in>set chordTemplates.
         snd e = map Num [1, 0, 0, 0, 1, 0, 0, 1, 0, 0, 0, 0] \<longrightarrow> fst e = ''C:maj'')
   \<and> cosineSimilarity (map Num [1, 0, 0, 0, 1, 0, 0, 1, 0, 0, 0, 0])
        (map Num [1, 0, 0, 0, 1, 0, 0, 1, 0, 0, 0, 0])
      = Num (4503599627370497 / 4503599627370496)
   \<and> cosineSimilarity (map Num [1, 0, 0, 0, 1, 0, 0, 1, 0, 0, 0, 0])
        (map Num [1, 0, 0, 0, 1, 0, 0, 1, 0, 0, 1, 0])
      = Num (7800463371553963 / 9007199254740992)"
proof -
  have general: "\<exists>k<length (own_keys_order templates).
          detectChord v templates = Some (fst (own_keys_order templates ! k))
          \<and> (\<forall>j<length (own_keys_order templates).
                js_ge (cosineSimilarity v (snd (own_keys_order templates ! k)))
                      (cosineSimilarity v (snd (own_keys_order templates ! j))))
          \<and> (\<forall>j<k. js_gt (cosineSimilarity v (snd (own_keys_order templates ! k)))
                           (cosineSimilarity v (snd (own_keys_order templates ! j))))"
    if "templates \<noteq> []" and "\<forall>e\<in>set templates. \<exists>r. cosineSimilarity v (snd e) = Num r"
    using that by (rule detectChord_argmax_scores)
  have sums: "cosineSimilarity a b
            = dbl_div (dot_rounded a b) (dbl_mul (dbl_sqrt (dot_rounded a a)) (dbl_sqrt (dot_rounded b b)))"
    if "length a = length b"
    using that by (rule cosineSimilarity_dot_rounded)
  have cmaj: "detectChord (map Num [1, 0, 0, 0, 1, 0, 0, 1, 0, 0, 0, 0]) chordTemplates = Some ''C:maj''"
    unfolding detectChord_def detectChord_loop_cmaj by simp
  have look: "map_of chordTemplates ''C:maj'' = Some (map Num [1, 0, 0, 0, 1, 0, 0, 1, 0, 0, 0, 0])"
    unfolding chordTemplates_def by (rule chordTemplates_lookup_cmaj)
  have only: "\<forall>e\<in>set chordTemplates.
         snd e = map Num [1, 0, 0, 0, 1, 0, 0, 1, 0, 0, 0, 0] \<longrightarrow> fst e = ''C:maj''"
    using chordTemplates_cmaj_only unfolding chordTemplates_def list_all_iff .
  show ?thesis using general sums cmaj look only cmaj_self cmaj_c7 by blast
qed

text \<open>
  C5 at work: on a vector with 1 at C and B and \<open>2^(-53)\<close> at D# and G#,
  every computed similarity against the library is a number, so the result is a
  template of maximal computed similarity; and the similarity of the vector of
  C major with itself is built from its rounded sum of squares.
\<close>

theorem detectChord_first_best_computed_witness:
  "(\<exists>k<length (own_keys_order chordTemplates).
      detectChord (map Num [1, 0, 0, 1 / 9007199254740992, 0, 0, 0, 0, 1 / 9007199254740992, 0, 0, 1])
          chordTemplates
        = Some (fst (own_keys_order chordTemplates ! k))
      \<and> (\<forall>j<length (own_keys_order chordTemplates).
            js_ge (cosineSimilarity
                     (map Num [1, 0, 0, 1 / 9007199254740992, 0, 0, 0, 0, 1 / 9007199254740992, 0, 0, 1])
                     (snd (own_keys_order chordTemplates ! k)))
                  (cosineSimilarity
                     (map Num [1, 0, 0, 1 / 9007199254740992, 0, 0, 0, 0, 1 / 9007199254740992, 0, 0, 1])
                     (snd (own_keys_order chordTemplates ! j)))))
   \<and> cosineSimilarity (map Num [1, 0, 0, 0, 1, 0, 0, 1, 0, 0, 0, 0])
        (map Num [1, 0, 0, 0, 1, 0, 0, 1, 0, 0, 0, 0])
      = dbl_div (dot_rounded (map Num [1, 0, 0, 0, 1, 0, 0, 1, 0, 0, 0, 0])
                   (map Num [1, 0, 0, 0, 1, 0, 0, 1, 0, 0, 0, 0]))
          (dbl_mul (dbl_sqrt (dot_rounded (map Num [1, 0, 0, 0, 1, 0, 0, 1, 0, 0, 0, 0])
                                (map Num [1, 0, 0, 0, 1, 0, 0, 1, 0, 0, 0, 0])))
                   (dbl_sqrt (dot_rounded (map Num [1, 0, 0, 0, 1, 0, 0, 1, 0, 0, 0, 0])
                                (map Num [1, 0, 0, 0, 1, 0, 0, 1, 0, 0, 0, 0]))))"
proof -
  let ?v = "map Num [1, 0, 0, 1 / 9007199254740992, 0, 0, 0, 0, 1 / 9007199254740992, 0, 0, 1]"
  let ?c = "map Num [1, 0, 0, 0, 1, 0, 0, 1, 0, 0, 0, 0]"
  have "length chordTemplates = 60" by (simp add: chordTemplates_def generateChordTemplates_eq)
  then have ne: "chordTemplates \<noteq> []" by auto
  have nums: "\<forall>e\<in>set chordTemplates. \<exists>r. cosineSimilarity ?v (snd e) = Num r"
    unfolding chordTemplates_def using scores_tie by (rule scores_numbers)
  have len: "length ?c = length ?c" by simp
  from detectChord_first_best_computed[of chordTemplates ?v ?c ?c] ne nums len
  show ?thesis by blast
qed

text \<open>
  C5 as the specification words it fails twice. The similarity of the vector of
  \<open>C:maj\<close> with itself is not 1.0: the program computes \<open>3 / (\<surd>3 \<cdot> \<surd>3)\<close> with the
  product rounded to \<open>3 - 2^(-51)\<close>, and the quotient is \<open>1 + 2^(-52)\<close>, outside the
  range \<open>[-1, 1]\<close> of a cosine. And the result is not always the first template of
  maximal cosine similarity: on the vector with 1 at C and B and \<open>2^(-53)\<close> at D# and
  G#, the templates \<open>G#:maj\<close> and \<open>G#:min\<close> have the same cosine similarity
  \<open>dot(a, b) / (\<parallel>a\<parallel> \<cdot> \<parallel>b\<parallel>)\<close> and \<open>G#:maj\<close> comes first in the library, yet the program
  returns \<open>G#:min\<close>: the rounded sum \<open>1 + 2^(-53) + 2^(-53)\<close> is 1, the rounded sum
  \<open>2^(-53) + 2^(-53) + 1\<close> is \<open>1 + 2^(-52)\<close>.
\<close>

theorem detectChord_cosine_counterexample:
  "cosineSimilarity (map Num [1, 0, 0, 0, 1, 0, 0, 1, 0, 0, 0, 0])
        (map Num [1, 0, 0, 0, 1, 0, 0, 1, 0, 0, 0, 0])
      = Num (4503599627370497 / 4503599627370496)
   \<and> cosineSimilarity (map Num [1, 0, 0, 0, 1, 0, 0, 1, 0, 0, 0, 0])
        (map Num [1, 0, 0, 0, 1, 0, 0, 1, 0, 0, 0, 0]) \<noteq> Num 1
   \<and> detectChord (map Num [1, 0, 0, 1 / 9007199254740992, 0, 0, 0, 0, 1 / 9007199254740992, 0, 0, 1])
        chordTemplates = Some ''G#:min''
   \<and> own_keys_order chordTemplates ! 41 = (''G#:maj'', map Num [1, 0, 0, 1, 0, 0, 0, 0, 1, 0, 0, 0])
   \<and> own_keys_order chordTemplates ! 42 = (''G#:min'', map Num [0, 0, 0, 1, 0, 0, 0, 0, 1, 0, 0, 1])
   \<and> cosine_spec [1, 0, 0, 1 / 9007199254740992, 0, 0, 0, 0, 1 / 9007199254740992, 0, 0, 1]
        [1, 0, 0, 1, 0, 0, 0, 0, 1, 0, 0, 0]
      = cosine_spec [1, 0, 0, 1 / 9007199254740992, 0, 0, 0, 0, 1 / 9007199254740992, 0, 0, 1]
          [0, 0, 0, 1, 0, 0, 0, 0, 1, 0, 0, 1]"
proof -
  have one: "Num (4503599627370497 / 4503599627370496) \<noteq> Num 1" by simp
  have tie: "detectChord (map Num [1, 0, 0, 1 / 9007199254740992, 0, 0, 0, 0, 1 / 9007199254740992, 0, 0, 1])
        chordTemplates = Some ''G#:min''"
    unfolding detectChord_def detectChord_loop_tie by simp
  show ?thesis
    unfolding cmaj_self using one tie chordTemplates_gsharp cosine_spec_tie by blast
qed

text \<open>
  C6: the loudness gate is inclusive. With an extractor that returns the loudness
  \<open>r\<close>, the frame is rejected exactly when \<open>r < 0.05\<close>: the state is then returned
  unchanged, so nothing is added to the smoothing window and the stored result stays.
  A frame of loudness 0.049 is rejected; one of loudness exactly 0.05 is accepted and
  goes on to the smoothing step, which accumulates its chroma vector.
\<close>

theorem loudness_gate_inclusive:
  assumes "essentiaExtractor st = Some ex"
    and "RMS ex buffer = Some (Num r)"
    and "hpcpExtractor ex buffer = Some hpcp"
  shows "analyse st buffer now
           = (if 5 / 100 \<le> r then smooth st buffer hpcp now else (Rejected buffer, st))
         \<and> (fst (analyse st buffer now) = Rejected buffer \<longleftrightarrow> r < 5 / 100)
         \<and> (r = 49 / 1000 \<longrightarrow> analyse st buffer now = (Rejected buffer, st))
         \<and> (r = 5 / 100 \<longrightarrow> analyse st buffer now = smooth st buffer hpcp now)
         \<and> (\<exists>out st'. smooth st buffer hpcp now = (out, st')
               \<and> (out = Accumulated buffer
                    \<and> hpcpAccumulation st' = hpcpAccumulation st @ [shiftHPCP hpcp (- 3)]
                  \<or> out = Flushed buffer
                       (averageHPCP (hpcpAccumulation st @ [shiftHPCP hpcp (- 3)]))))"
proof -
  have eq: "analyse st buffer now
           = (if 5 / 100 \<le> r then smooth st buffer hpcp now else (Rejected buffer, st))"
    using assms by (simp add: analyse_def not_le)
  have sm: "\<exists>out st'. smooth st buffer hpcp now = (out, st')
               \<and> (out = Accumulated buffer
                    \<and> hpcpAccumulation st' = hpcpAccumulation st @ [shiftHPCP hpcp (- 3)]
                  \<or> out = Flushed buffer
                       (averageHPCP (hpcpAccumulation st @ [shiftHPCP hpcp (- 3)])))"
    by (simp add: smooth_def Let_def)
  then have nr: "fst (smooth st buffer hpcp now) \<noteq> Rejected buffer" by auto
  have iff: "fst (analyse st buffer now) = Rejected buffer \<longleftrightarrow> r < 5 / 100"
    using nr by (simp add: eq not_le)
  show ?thesis using eq sm iff by simp
qed

theorem loudness_gate_inclusive_witness:
  "analyse ((initial_pipeline 0 :: real pipeline)
       \<lparr>essentiaExtractor := Some \<lparr>RMS = \<lambda>b. Some (Num (49 / 1000)),
                                   hpcpExtractor = \<lambda>b. Some (replicate 12 (Num 1))\<rparr>\<rparr>) [] 0
     = (Rejected [], (initial_pipeline 0 :: real pipeline)
       \<lparr>essentiaExtractor := Some \<lparr>RMS = \<lambda>b. Some (Num (49 / 1000)),
                                   hpcpExtractor = \<lambda>b. Some (replicate 12 (Num 1))\<rparr>\<rparr>)
   \<and> analyse ((initial_pipeline 0 :: real pipeline)
       \<lparr>essentiaExtractor := Some \<lparr>RMS = \<lambda>b. Some (Num (5 / 100)),
                                   hpcpExtractor = \<lambda>b. Some (replicate 12 (Num 1))\<rparr>\<rparr>) [] 0
     = smooth ((initial_pipeline 0 :: real pipeline)
       \<lparr>essentiaExtractor := Some \<lparr>RMS = \<lambda>b. Some (Num (5 / 100)),
                                   hpcpExtractor = \<lambda>b. Some (replicate 12 (Num 1))\<rparr>\<rparr>) []
         (replicate 12 (Num 1)) 0"
proof -
  let ?quiet = "\<lparr>RMS = \<lambda>b::real list. Some (Num (49 / 1000)),
                 hpcpExtractor = \<lambda>b. Some (replicate 12 (Num 1))\<rparr>"
  let ?loud = "\<lparr>RMS = \<lambda>b::real list. Some (Num (5 / 100)),
                hpcpExtractor = \<lambda>b. Some (replicate 12 (Num 1))\<rparr>"
  let ?q = "(initial_pipeline 0 :: real pipeline)\<lparr>essentiaExtractor := Some ?quiet\<rparr>"
  let ?l = "(initial_pipeline 0 :: real pipeline)\<lparr>essentiaExtractor := Some ?loud\<rparr>"
  have "analyse ?q [] 0 = (Rejected [], ?q)"
    using loudness_gate_inclusive[of ?q ?quiet "[]" "49 / 1000" "replicate 12 (Num 1)" 0]
    by simp
  moreover have "analyse ?l [] 0 = smooth ?l [] (replicate 12 (Num 1)) 0"
    using loudness_gate_inclusive[of ?l ?loud "[]" "5 / 100" "replicate 12 (Num 1)" 0]
    by simp
  ultimately show ?thesis by blast
qed

text \<open>
  C7: the chord template library built from the 12 roots and the 5 qualities has
  exactly 60 entries, one per root and quality, stored under the key
  \<open>root:quality\<close>. Each entry is a vector of length 12 that is 1 exactly at the
  positions \<open>(root + i) mod 12\<close> for the intervals \<open>i\<close> of the quality and 0 at the
  others, so it has as many ones as the quality has intervals and zeros elsewhere.
  In particular \<^verbatim>\<open>generateChordTemplate(0, [0, 4, 7])\<close> is
  \<open>[1,0,0,0,1,0,0,1,0,0,0,0]\<close>.
\<close>

theorem template_library_entries:
  "length generateChordTemplates = 60
   \<and> distinct (map fst generateChordTemplates)
   \<and> generateChordTemplates =
       concat (map (\<lambda>r. map (\<lambda>q. (noteNames ! r @ '':'' @ fst q, generateChordTemplate (int r) (snd q)))
                          (own_keys_order chordTypes)) [0..<12])
   \<and> (\<forall>r<12. \<forall>q\<in>set chordTypes. \<exists>t.
         map_of generateChordTemplates (noteNames ! r @ '':'' @ fst q) = Some t
         \<and> length t = 12
         \<and> (\<forall>p<12. t ! p = (if \<exists>i\<in>set (snd q). int p = (int r + i) mod 12 then Num 1 else Num 0))
         \<and> length (filter (\<lambda>x. x = Num 1) t) = length (snd q)
         \<and> length (filter (\<lambda>x. x = Num 0) t) = 12 - length (snd q))
   \<and> generateChordTemplate 0 [0, 4, 7]
       = [Num 1, Num 0, Num 0, Num 0, Num 1, Num 0, Num 0, Num 1, Num 0, Num 0, Num 0, Num 0]"
proof -
  have n: "length generateChordTemplates = 60" by (simp add: generateChordTemplates_eq)
  have entry: "\<exists>t. map_of generateChordTemplates (noteNames ! r @ '':'' @ fst q) = Some t
         \<and> length t = 12
         \<and> (\<forall>p<12. t ! p = (if \<exists>i\<in>set (snd q). int p = (int r + i) mod 12 then Num 1 else Num 0))
         \<and> length (filter (\<lambda>x. x = Num 1) t) = length (snd q)
         \<and> length (filter (\<lambda>x. x = Num 0) t) = 12 - length (snd q)"
    if r: "r < 12" and q: "q \<in> set chordTypes" for r q
  proof -
    let ?t = "generateChordTemplate (int r) (snd q)"
    have rin: "r \<in> set [0..<12]" using r by simp
    have look: "map_of generateChordTemplates (noteNames ! r @ '':'' @ fst q) = Some ?t"
      using library_lookup rin q unfolding list_all_iff by blast
    have cnt: "length (filter (\<lambda>x. x = Num 1) ?t) = length (snd q)
               \<and> length (filter (\<lambda>x. x = Num 0) ?t) = 12 - length (snd q)"
      using library_counts rin q unfolding list_all_iff by blast
    have pos: "?t ! p = (if \<exists>i\<in>set (snd q). int p = (int r + i) mod 12 then Num 1 else Num 0)"
      if p: "p < 12" for p
    proof -
      have "(js_rem (int r + i) 12 = int p) = (int p = (int r + i) mod 12)"
        if "i \<in> set (snd q)" for i
        using chordTypes_nonneg[OF q that] by (auto simp add: js_rem_nonneg)
      then have "(\<exists>i\<in>set (snd q). js_rem (int r + i) 12 = int p)
            = (\<exists>i\<in>set (snd q). int p = (int r + i) mod 12)"
        by blast
      then show ?thesis using generateChordTemplate_nth[OF p, of "int r" "snd q"] by simp
    qed
    show ?thesis using look cnt pos generateChordTemplate_length by blast
  qed
  have ex: "generateChordTemplate 0 [0, 4, 7]
       = [Num 1, Num 0, Num 0, Num 0, Num 1, Num 0, Num 0, Num 1, Num 0, Num 0, Num 0, Num 0]"
    by (simp add: generateChordTemplate_def array_set_def js_rem_def rep12)
  show ?thesis using n library_distinct library_comprehension entry ex by blast
qed

theorem template_library_entries_witness:
  "map_of generateChordTemplates ''A:min''
     = Some [Num 1, Num 0, Num 0, Num 0, Num 1, Num 0, Num 0, Num 0, Num 0, Num 1, Num 0, Num 0]"
proof -
  have q: "(''min'', [0, 3, 7]) \<in> set chordTypes" by (simp add: chordTypes_def)
  have r: "(9::nat) < 12" by simp
  from template_library_entries have
    "\<forall>r<12. \<forall>q\<in>set chordTypes. \<exists>t.
         map_of generateChordTemplates (noteNames ! r @ '':'' @ fst q) = Some t
         \<and> length t = 12
         \<and> (\<forall>p<12. t ! p = (if \<exists>i\<in>set (snd q). int p = (int r + i) mod 12 then Num 1 else Num 0))
         \<and> length (filter (\<lambda>x. x = Num 1) t) = length (snd q)
         \<and> length (filter (\<lambda>x. x = Num 0) t) = 12 - length (snd q)"
    by blast
  with r q obtain t where
    look: "map_of generateChordTemplates (noteNames ! 9 @ '':'' @ ''min'') = Some t"
    and len: "length t = 12"
    and pos: "\<forall>p<12. t ! p = (if \<exists>i\<in>set [0, 3, 7]. int p = (int 9 + i) mod 12 then Num 1 else Num 0)"
    by fastforce
  have "t = [Num 1, Num 0, Num 0, Num 0, Num 1, Num 0, Num 0, Num 0, Num 0, Num 1, Num 0, Num 0]"
  proof (rule nth_equalityI)
    show "length t = length [Num 1, Num 0, Num 0, Num 0, Num 1, Num 0, Num 0, Num 0, Num 0, Num 1, Num 0, Num 0]"
      using len by simp
  next
    fix p assume "p < length t"
    then have p: "p < 12" using len by simp
    then have "p \<in> set [0..<12]" by simp
    then have "p \<in> {0,1,2,3,4,5,6,7,8,9,10,11}" unfolding upt12 by simp
    then show "t ! p = [Num 1, Num 0, Num 0, Num 0, Num 1, Num 0, Num 0, Num 0, Num 0, Num 1, Num 0, Num 0] ! p"
      using pos p by auto
  qed
  then show ?thesis using look by (simp add: noteNames_def)
qed

text \<open>
  C8: for a vector of finite numbers \<^verbatim>\<open>detectNotes\<close> returns the entries of exactly
  the indices whose value is at least the threshold, each index once, ordered by
  value descending and, among equal values, by index ascending. In particular, for
  \<open>[1,0,0,0,1,0,0,1,0,0,0,0]\<close> and the threshold 0.1 the result is C, E, G, each
  with the value 1, in this order.
\<close>

theorem detectNotes_ranking:
  "(\<exists>is. detectNotes (map Num rs) (Num t)
            = map (\<lambda>i. (if i < length noteNames then Some (noteNames ! i) else None, Num (rs ! i))) is
        \<and> distinct is
        \<and> set is = {i. i < length rs \<and> t \<le> rs ! i}
        \<and> (\<forall>j k. j < k \<and> k < length is \<longrightarrow>
              rs ! (is ! k) < rs ! (is ! j)
              \<or> (rs ! (is ! k) = rs ! (is ! j) \<and> is ! j < is ! k)))
   \<and> detectNotes [Num 1, Num 0, Num 0, Num 0, Num 1, Num 0, Num 0, Num 1, Num 0, Num 0, Num 0, Num 0]
        (Num (1 / 10))
      = [(Some ''C'', Num 1), (Some ''E'', Num 1), (Some ''G'', Num 1)]"
proof -
  let ?is = "js_sort (\<lambda>i j. rs ! i < rs ! j) (filter (\<lambda>i. t \<le> rs ! i) [0..<length rs])"
  have srt: "sorted_wrt (ranks_before rs) ?is"
    by (intro sorted_js_sort sorted_wrt_filter) simp
  have ord: "\<forall>j k. j < k \<and> k < length ?is \<longrightarrow>
              rs ! (?is ! k) < rs ! (?is ! j)
              \<or> (rs ! (?is ! k) = rs ! (?is ! j) \<and> ?is ! j < ?is ! k)"
    using srt by (auto simp add: sorted_wrt_iff_nth_less ranks_before_def)
  have d: "distinct ?is" by (simp add: distinct_js_sort)
  have st: "set ?is = {i. i < length rs \<and> t \<le> rs ! i}" by (auto simp add: set_js_sort)
  have ex: "detectNotes [Num 1, Num 0, Num 0, Num 0, Num 1, Num 0, Num 0, Num 1, Num 0, Num 0, Num 0, Num 0]
        (Num (1 / 10))
      = [(Some ''C'', Num 1), (Some ''E'', Num 1), (Some ''G'', Num 1)]"
    by (simp add: detectNotes_def upt12 noteNames_def notes_after_def js_sub_def js_gt_def)
  show ?thesis using detectNotes_indices[of rs t] d st ord ex by blast
qed

theorem detectNotes_ranking_witness:
  "(\<exists>is. detectNotes (map Num [1 / 2, 0, 2, 0, 1 / 2, 0, 0, 2, 0, 0, 1 / 20, 0]) (Num (1 / 10))
           = map (\<lambda>i. (if i < length noteNames then Some (noteNames ! i) else None,
                        Num ([1 / 2, 0, 2, 0, 1 / 2, 0, 0, 2, 0, 0, 1 / 20, 0] ! i))) is
         \<and> distinct is \<and> set is = {0, 2, 4, 7} \<and> length is = 4
         \<and> ([1 / 2, 0, 2, 0, 1 / 2, 0, 0, 2, 0, 0, 1 / 20, 0 :: real] ! (is ! 1)
               < [1 / 2, 0, 2, 0, 1 / 2, 0, 0, 2, 0, 0, 1 / 20, 0] ! (is ! 0)
             \<or> [1 / 2, 0, 2, 0, 1 / 2, 0, 0, 2, 0, 0, 1 / 20, 0 :: real] ! (is ! 1)
               = [1 / 2, 0, 2, 0, 1 / 2, 0, 0, 2, 0, 0, 1 / 20, 0] ! (is ! 0)
               \<and> is ! 0 < is ! 1))
   \<and> detectNotes (map Num [1 / 2, 0, 2, 0, 1 / 2, 0, 0, 2, 0, 0, 1 / 20, 0]) (Num (1 / 10))
     = [(Some ''D'', Num 2), (Some ''G'', Num 2), (Some ''C'', Num (1 / 2)), (Some ''E'', Num (1 / 2))]"
proof -
  let ?rs = "[1 / 2, 0, 2, 0, 1 / 2, 0, 0, 2, 0, 0, 1 / 20, 0::real]"
  from detectNotes_ranking[of ?rs "1 / 10"] obtain "is" where
    eq: "detectNotes (map Num ?rs) (Num (1 / 10))
          = map (\<lambda>i. (if i < length noteNames then Some (noteNames ! i) else None, Num (?rs ! i))) is"
    and d: "distinct is"
    and s: "set is = {i. i < length ?rs \<and> 1 / 10 \<le> ?rs ! i}"
    and o: "\<forall>j k. j < k \<and> k < length is \<longrightarrow>
              ?rs ! (is ! k) < ?rs ! (is ! j)
              \<or> (?rs ! (is ! k) = ?rs ! (is ! j) \<and> is ! j < is ! k)"
    by blast
  have "{i. i < length ?rs \<and> 1 / 10 \<le> ?rs ! i} = set (filter (\<lambda>i. 1 / 10 \<le> ?rs ! i) [0..<12])"
    by auto
  also have "\<dots> = {0, 2, 4, 7}" by (simp add: upt12)
  finally have s': "set is = {0, 2, 4, 7}" using s by simp
  have "length is = card (set is)" using d by (simp add: distinct_card)
  then have l: "length is = 4" by (simp add: s')
  have "(0::nat) < 1 \<and> 1 < length is" using l by simp
  with o have o': "?rs ! (is ! 1) < ?rs ! (is ! 0)
              \<or> (?rs ! (is ! 1) = ?rs ! (is ! 0) \<and> is ! 0 < is ! 1)"
    by blast
  have ev: "detectNotes (map Num ?rs) (Num (1 / 10))
     = [(Some ''D'', Num 2), (Some ''G'', Num 2), (Some ''C'', Num (1 / 2)), (Some ''E'', Num (1 / 2))]"
    by (simp add: detectNotes_def upt12 noteNames_def notes_after_def js_sub_def js_gt_def)
  show ?thesis using eq d s' l o' ev by blast
qed

text \<open>
  C9: the stored result (\<open>lastChordResult\<close> and \<open>lastNotesResult\<close>) changes only at
  a flush of the smoothing window. \<^verbatim>\<open>stopAudioWorkletStream\<close> leaves it as it is;
  a call of the handler that does not flush leaves it as it is, and so does any
  sequence of calls none of which flushes; a frame below the loudness floor returns
  the state unchanged.
\<close>

theorem detection_result_only_flush:
  "lastChordResult (stopAudioWorkletStream st) = lastChordResult st
   \<and> lastNotesResult (stopAudioWorkletStream st) = lastNotesResult st
   \<and> (\<forall>data now. flushed_of (fst (onmessage st data now)) = None \<longrightarrow>
         lastChordResult (snd (onmessage st data now)) = lastChordResult st
         \<and> lastNotesResult (snd (onmessage st data now)) = lastNotesResult st)
   \<and> (\<forall>chunks. (\<forall>out\<in>set (fst (deliver st chunks)). flushed_of out = None) \<longrightarrow>
         lastChordResult (snd (deliver st chunks)) = lastChordResult st
         \<and> lastNotesResult (snd (deliver st chunks)) = lastNotesResult st)
   \<and> (\<forall>ex buffer rms now.
         essentiaExtractor st = Some ex \<and> RMS ex buffer = Some rms \<and> js_lt rms (Num (5 / 100)) \<longrightarrow>
         analyse st buffer now = (Rejected buffer, st) \<and> flushed_of (Rejected buffer) = None)"
proof -
  have stop: "lastChordResult (stopAudioWorkletStream st) = lastChordResult st
     \<and> lastNotesResult (stopAudioWorkletStream st) = lastNotesResult st"
    by (simp add: stopAudioWorkletStream_def)
  have gate: "\<forall>ex buffer rms now.
         essentiaExtractor st = Some ex \<and> RMS ex buffer = Some rms \<and> js_lt rms (Num (5 / 100)) \<longrightarrow>
         analyse st buffer now = (Rejected buffer, st) \<and> flushed_of (Rejected buffer) = None"
    by (simp add: analyse_def)
  show ?thesis using stop gate onmessage_not_flushed deliver_not_flushed by blast
qed

theorem detection_result_only_flush_witness:
  "lastChordResult (snd (onmessage
       ((initial_pipeline 0 :: real pipeline)
          \<lparr>essentiaExtractor := Some \<lparr>RMS = \<lambda>b. Some (Num 0),
                                      hpcpExtractor = \<lambda>b. Some (replicate 12 (Num 1))\<rparr>\<rparr>)
       (replicate 8192 0) 1000)) = Some ''None''
   \<and> lastChordResult (stopAudioWorkletStream (initial_pipeline 0 :: real pipeline)) = Some ''None''"
proof -
  let ?ex = "\<lparr>RMS = \<lambda>b::real list. Some (Num 0),
              hpcpExtractor = \<lambda>b. Some (replicate 12 (Num 1))\<rparr>"
  let ?st = "(initial_pipeline 0 :: real pipeline)\<lparr>essentiaExtractor := Some ?ex\<rparr>"
  have out: "fst (onmessage ?st (replicate 8192 0) 1000) = Rejected (replicate 8192 0)"
    by (simp add: onmessage_def analyse_def initial_pipeline_def BUFFER_SIZE_def Let_def)
  then have "flushed_of (fst (onmessage ?st (replicate 8192 0) 1000)) = None" by simp
  with detection_result_only_flush[of ?st]
  have "lastChordResult (snd (onmessage ?st (replicate 8192 0) 1000)) = lastChordResult ?st"
    by blast
  moreover have "lastChordResult (stopAudioWorkletStream (initial_pipeline 0 :: real pipeline))
      = lastChordResult (initial_pipeline 0 :: real pipeline)"
    using detection_result_only_flush[of "initial_pipeline 0 :: real pipeline"] by blast
  ultimately show ?thesis by (simp add: initial_pipeline_def)
qed

text \<open>
  C10: for an all-zero input vector \<^verbatim>\<open>detectChord\<close> returns \<^verbatim>\<open>null\<close>, whatever the
  library: every similarity is NaN (here \<open>0 / 0\<close>, which rounding leaves as it is),
  so the comparison \<^verbatim>\<open>score > bestScore\<close> fails for every template, no iteration
  changes \<open>(bestChord, bestScore)\<close>, and the initial \<^verbatim>\<open>null\<close> is returned.
\<close>

theorem detectChord_all_zero_null:
  "detectChord (replicate n (Num 0)) templates = None
   \<and> detectChord_loop (replicate n (Num 0)) templates = (None, NInf)
   \<and> (\<forall>t. cosineSimilarity (replicate n (Num 0)) t = NaN)
   \<and> (\<forall>t best. \<not> js_gt (cosineSimilarity (replicate n (Num 0)) t) best)
   \<and> (\<forall>entry best. detectChord_step (replicate n (Num 0)) entry best = best)
   \<and> js_div (Num 0) (Num 0) = NaN
   \<and> dbl_div (Num 0) (Num 0) = NaN"
proof -
  have loop: "detectChord_loop (replicate n (Num 0)) templates = (None, NInf)"
    by (simp add: detectChord_loop_def detectChord_fold_NaN cosineSimilarity_zero)
  have step: "\<forall>entry best. detectChord_step (replicate n (Num 0)) entry best = best"
    by (simp add: detectChord_step_def cosineSimilarity_zero js_gt_NaN)
  show ?thesis
    using loop step by (simp add: detectChord_zero cosineSimilarity_zero js_gt_NaN dbl_div_def)
qed

theorem detectChord_all_zero_null_witness:
  "detectChord (replicate 12 (Num 0)) chordTemplates = None"
  using detectChord_all_zero_null[of 12 chordTemplates] by blast

section \<open>A further property of the rotation\<close>

text \<open>
  The rotation is undone by the opposite rotation whenever the shift is at most the
  length of the vector in absolute value: then \<open>i + shift + len\<close> is never negative
  and \<^verbatim>\<open>%\<close> agrees with the mathematical remainder. For vectors of length 12 this
  covers the shifts from \<open>-12\<close> to 12, and the \<open>-3\<close> the pipeline uses.
\<close>

theorem shiftHPCP_roundtrip:
  assumes "\<bar>s\<bar> \<le> int (length v)"
  shows "shiftHPCP (shiftHPCP v s) (- s) = v"
proof (rule nth_equalityI)
  let ?n = "length v"
  let ?w = "shiftHPCP v s"
  have lw: "length ?w = ?n"
  proof (cases "?n = 0")
    case True
    then show ?thesis by (simp add: shiftHPCP_def)
  next
    case False
    then have "0 < ?n" by simp
    then show ?thesis using shiftHPCP_nth[of v s 0] assms by simp
  qed
  have bk: "- int (length ?w) \<le> - s" using assms lw by simp
  show len: "length (shiftHPCP ?w (- s)) = length v"
  proof (cases "?n = 0")
    case True
    then show ?thesis using lw by (simp add: shiftHPCP_def)
  next
    case False
    then have "0 < length ?w" using lw by simp
    then show ?thesis using shiftHPCP_nth[OF bk, of 0] lw by simp
  qed
  fix i assume "i < length (shiftHPCP ?w (- s))"
  then have i: "i < ?n" using len by simp
  let ?j = "nat ((int i + s) mod int ?n)"
  have fwd: "- int ?n \<le> s" using assms by simp
  have wj: "?w ! ?j = v ! i" using shiftHPCP_nth[OF fwd i] by simp
  have "0 < ?n" using i by auto
  then have j: "?j < length ?w" using nat_mod_less lw by simp
  have "0 \<le> (int i + s) mod int ?n" using \<open>0 < ?n\<close> by simp
  then have "(int ?j + - s) mod int (length ?w) = ((int i + s) mod int ?n - s) mod int ?n"
    using lw by simp
  also have "\<dots> = (int i + s - s) mod int ?n" by (rule mod_diff_left_eq)
  also have "\<dots> = int i" using i by simp
  finally have "nat ((int ?j + - s) mod int (length ?w)) = i" by simp
  then have "shiftHPCP ?w (- s) ! i = ?w ! ?j"
    using shiftHPCP_nth[OF bk j] by simp
  then show "shiftHPCP ?w (- s) ! i = v ! i" using wj by simp
qed

theorem shiftHPCP_roundtrip_witness:
  "shiftHPCP (shiftHPCP
      [Num 1, Num 2, Num 3, Num 4, Num 5, Num 6, Num 7, Num 8, Num 9, Num 10, Num 11, Num 12] (- 3)) 3
   = [Num 1, Num 2, Num 3, Num 4, Num 5, Num 6, Num 7, Num 8, Num 9, Num 10, Num 11, Num 12]"
  using shiftHPCP_roundtrip[of "- 3"
      "[Num 1, Num 2, Num 3, Num 4, Num 5, Num 6, Num 7, Num 8, Num 9, Num 10, Num 11, Num 12]"]
  by simp

end
